theory Spec2Isabelle
  imports Complex_Main "HOL-Library.AList"
begin

section \<open>JavaScript containers\<close>

text \<open>
  A JavaScript \<open>Set<string>\<close> keeps its members in insertion order and without
  duplicates; it is modelled by the list of its members in that order. \<open>Set.add\<close>
  appends a value that is not yet a member, \<open>Set.delete\<close> removes it, \<open>Set.size\<close>
  is the number of members.
\<close>

definition set_add :: "'a \<Rightarrow> 'a list \<Rightarrow> 'a list" where
  "set_add x xs = (if x \<in> set xs then xs else xs @ [x])"

definition set_delete :: "'a \<Rightarrow> 'a list \<Rightarrow> 'a list" where
  "set_delete x xs = filter (\<lambda>y. y \<noteq> x) xs"

definition set_size :: "'a list \<Rightarrow> nat" where
  "set_size xs = length xs"

text \<open>
  \<open>Array.prototype.findIndex\<close>: the index of the first element satisfying the
  predicate, \<open>-1\<close> when there is none.
\<close>

fun findIndex :: "('a \<Rightarrow> bool) \<Rightarrow> 'a list \<Rightarrow> int" where
  "findIndex P [] = - 1"
| "findIndex P (x # xs) =
     (if P x then 0
      else (let i = findIndex P xs in if i = - 1 then - 1 else i + 1))"

text \<open>\<open>xs.splice(i, 0, item)\<close>: insert \<open>item\<close> before position \<open>i\<close>.\<close>

definition splice_insert :: "nat \<Rightarrow> 'a \<Rightarrow> 'a list \<Rightarrow> 'a list" where
  "splice_insert i item xs = take i xs @ [item] @ drop i xs"


section \<open>DownloadQueue\<close>

text \<open>
  \<open>QueueItem\<close> (types.ts) and the class \<open>DownloadQueue\<close> (DownloadQueue.ts).
  Priorities are integers; \<open>addedAt\<close> is the value of \<open>Date.now()\<close> at the call, passed
  in as an argument. The limit \<open>maxConcurrent\<close> is a number of downloads, a natural
  number.
\<close>

record QueueItem =
  taskId :: string
  priority :: int
  addedAt :: nat

record DownloadQueue =
  queue :: "QueueItem list"
  activeDownloads :: "string list"
  maxConcurrent :: nat

definition new_DownloadQueue :: "nat \<Rightarrow> DownloadQueue" where
  "new_DownloadQueue m = \<lparr>queue = [], activeDownloads = [], maxConcurrent = m\<rparr>"

definition add :: "string \<Rightarrow> int \<Rightarrow> nat \<Rightarrow> DownloadQueue \<Rightarrow> DownloadQueue" where
  "add tid prio now q =
     (let item = \<lparr>taskId = tid, priority = prio, addedAt = now\<rparr>;
          insertIndex = findIndex (\<lambda>e. priority e < prio) (queue q)
      in if insertIndex = - 1
         then q\<lparr>queue := queue q @ [item]\<rparr>
         else q\<lparr>queue := splice_insert (nat insertIndex) item (queue q)\<rparr>)"

definition remove :: "string \<Rightarrow> DownloadQueue \<Rightarrow> DownloadQueue" where
  "remove tid q =
     q\<lparr>queue := filter (\<lambda>item. taskId item \<noteq> tid) (queue q),
       activeDownloads := set_delete tid (activeDownloads q)\<rparr>"

text \<open>
  \<open>getNext\<close> returns the task id, or \<open>None\<close> for \<open>null\<close>, together with the queue
  as the call leaves it.
\<close>

definition getNext :: "DownloadQueue \<Rightarrow> string option \<times> DownloadQueue" where
  "getNext q =
     (if set_size (activeDownloads q) \<ge> maxConcurrent q then (None, q)
      else if length (queue q) = 0 then (None, q)
      else (case queue q of
              [] \<Rightarrow> (None, q)
            | item # rest \<Rightarrow>
                (Some (taskId item),
                 q\<lparr>queue := rest,
                   activeDownloads := set_add (taskId item) (activeDownloads q)\<rparr>)))"

definition complete_q :: "string \<Rightarrow> DownloadQueue \<Rightarrow> DownloadQueue" where
  "complete_q tid q = q\<lparr>activeDownloads := set_delete tid (activeDownloads q)\<rparr>"

definition isActive :: "string \<Rightarrow> DownloadQueue \<Rightarrow> bool" where
  "isActive tid q = (tid \<in> set (activeDownloads q))"

definition getActiveCount :: "DownloadQueue \<Rightarrow> nat" where
  "getActiveCount q = set_size (activeDownloads q)"

definition getPendingCount :: "DownloadQueue \<Rightarrow> nat" where
  "getPendingCount q = length (queue q)"

definition hasCapacity :: "DownloadQueue \<Rightarrow> bool" where
  "hasCapacity q = (set_size (activeDownloads q) < maxConcurrent q)"

definition clear :: "DownloadQueue \<Rightarrow> DownloadQueue" where
  "clear q = q\<lparr>queue := [], activeDownloads := []\<rparr>"

definition getQueuedTaskIds :: "DownloadQueue \<Rightarrow> string list" where
  "getQueuedTaskIds q = map taskId (queue q)"

definition getActiveTaskIds :: "DownloadQueue \<Rightarrow> string list" where
  "getActiveTaskIds q = activeDownloads q"

subsection \<open>Sequences of queue operations\<close>

datatype queue_op =
    Add string int nat
  | GetNext
  | Complete string
  | Remove string
  | Clear

fun queue_step :: "queue_op \<Rightarrow> DownloadQueue \<Rightarrow> DownloadQueue" where
  "queue_step (Add tid prio now) q = add tid prio now q"
| "queue_step GetNext q = snd (getNext q)"
| "queue_step (Complete tid) q = complete_q tid q"
| "queue_step (Remove tid) q = remove tid q"
| "queue_step Clear q = clear q"

fun queue_run :: "queue_op list \<Rightarrow> DownloadQueue \<Rightarrow> DownloadQueue" where
  "queue_run [] q = q"
| "queue_run (opn # ops) q = queue_run ops (queue_step opn q)"

text \<open>
  A request \<open>(taskId, priority, time)\<close> stands for one call \<open>add(taskId, priority)\<close>
  made at the given time; \<open>adds\<close> makes the calls in list order.
\<close>

definition item_of :: "string \<times> int \<times> nat \<Rightarrow> QueueItem" where
  "item_of r = \<lparr>taskId = fst r, priority = fst (snd r), addedAt = snd (snd r)\<rparr>"

fun adds :: "(string \<times> int \<times> nat) list \<Rightarrow> DownloadQueue \<Rightarrow> DownloadQueue" where
  "adds [] q = q"
| "adds (r # rs) q = adds rs (add (fst r) (fst (snd r)) (snd (snd r)) q)"

text \<open>
  \<open>getNexts k\<close> calls \<open>getNext\<close> \<open>k\<close> times in a row and collects the ids of the
  calls that did not return \<open>null\<close>.
\<close>

fun getNexts :: "nat \<Rightarrow> DownloadQueue \<Rightarrow> string list \<times> DownloadQueue" where
  "getNexts 0 q = ([], q)"
| "getNexts (Suc k) q =
     (case getNext q of
        (None, q') \<Rightarrow> getNexts k q'
      | (Some tid, q') \<Rightarrow> (tid # fst (getNexts k q'), snd (getNexts k q')))"

text \<open>
  \<open>drain n\<close> calls \<open>getNext\<close> up to \<open>n\<close> times, each admitted task being completed
  (\<open>complete\<close>) before the next call, and stops at the first \<open>null\<close>.
\<close>

fun drain :: "nat \<Rightarrow> DownloadQueue \<Rightarrow> string list" where
  "drain 0 q = []"
| "drain (Suc n) q =
     (case getNext q of
        (None, q') \<Rightarrow> []
      | (Some tid, q') \<Rightarrow> tid # drain n (complete_q tid q'))"

text \<open>The pending queue is ordered by non-increasing priority.\<close>

definition prio_sorted :: "QueueItem list \<Rightarrow> bool" where
  "prio_sorted xs = sorted_wrt (\<lambda>a b. priority a \<ge> priority b) xs"

text \<open>
  The insertion rule in the words of the specification: the first position whose
  existing priority is not greater than the new priority, the end when there is none.
\<close>

definition spec_insert :: "QueueItem \<Rightarrow> QueueItem list \<Rightarrow> QueueItem list" where
  "spec_insert item xs =
     (let i = findIndex (\<lambda>e. priority e \<le> priority item) xs
      in if i = - 1 then xs @ [item] else splice_insert (nat i) item xs)"

definition example_queue :: DownloadQueue where
  "example_queue = add ''a'' 5 1 (new_DownloadQueue 3)"


section \<open>Task records, configuration and constants\<close>

datatype DownloadStatus = PENDING | DOWNLOADING | PAUSED | COMPLETED | FAILED | CANCELLED

datatype NetworkState = ONLINE | OFFLINE | UNKNOWN

text \<open>The error codes of constants.ts that the manager uses.\<close>

definition NETWORK_ERROR :: string where
  "NETWORK_ERROR = ''NETWORK_ERROR''"

definition INVALID_URL :: string where
  "INVALID_URL = ''INVALID_URL''"

definition INSUFFICIENT_STORAGE :: string where
  "INSUFFICIENT_STORAGE = ''INSUFFICIENT_STORAGE''"

subsection \<open>JavaScript numbers\<close>

text \<open>
  A JavaScript number is an IEEE 754 binary64 value: a finite double, given by the
  rational it denotes, one of the two infinities, or \<open>NaN\<close>. The sign of a zero is
  not kept.

  \<open>to_double\<close> rounds a rational to the nearest double, ties to the even significand.
  A double has a 53-bit significand: for \<open>2^e \<le> |x| < 2^(e+1)\<close> the doubles around
  \<open>x\<close> are the multiples of \<open>2^(e-52)\<close>, of \<open>2^(-1074)\<close> in the subnormal range
  \<open>e < -1022\<close>, and a result of \<open>2^1024\<close> or more is an infinity. \<open>exponent\<close> finds
  \<open>e\<close> by halving or doubling at most 1100 times; a value beyond that range
  overflows or rounds to zero whatever its exact exponent is.
\<close>

datatype jsnum = Num rat | PosInfinity | NegInfinity | NaN

definition pow2 :: "int \<Rightarrow> rat" where
  "pow2 e = (if 0 \<le> e then 2 ^ nat e else 1 / 2 ^ nat (- e))"

fun exponent_up :: "nat \<Rightarrow> rat \<Rightarrow> int" where
  "exponent_up 0 x = 0"
| "exponent_up (Suc n) x = (if x < 2 then 0 else 1 + exponent_up n (x / 2))"

fun exponent_down :: "nat \<Rightarrow> rat \<Rightarrow> int" where
  "exponent_down 0 x = 0"
| "exponent_down (Suc n) x = (if 1 \<le> x then 0 else exponent_down n (x * 2) - 1)"

definition exponent :: "rat \<Rightarrow> int" where
  "exponent x = (if 1 \<le> x then exponent_up 1100 x else exponent_down 1100 x)"

definition round_half_even :: "rat \<Rightarrow> int" where
  "round_half_even m =
     (let f = \<lfloor>m\<rfloor>; d = m - of_int f
      in if d < 1 / 2 then f else if 1 / 2 < d then f + 1 else if even f then f else f + 1)"

definition to_double :: "rat \<Rightarrow> jsnum" where
  "to_double x =
     (if x = 0 then Num 0
      else
        (let a = \<bar>x\<bar>;
             e = exponent a;
             quantum = pow2 (if e < - 1022 then - 1074 else e - 52);
             r = of_int (round_half_even (a / quantum)) * quantum
         in if pow2 1024 \<le> r then (if 0 < x then PosInfinity else NegInfinity)
            else Num (if 0 < x then r else - r)))"

text \<open>
  The division of two byte counts (integers, which the callback delivers as doubles
  that hold them exactly), the product with a constant, and \<open>Math.round\<close>, which
  rounds to the nearest integer, a half towards \<open>+\<infinity>\<close>, without a rounding error of
  its own.
\<close>

definition js_div :: "int \<Rightarrow> int \<Rightarrow> jsnum" where
  "js_div a b =
     (if b = 0 then (if a = 0 then NaN else if a > 0 then PosInfinity else NegInfinity)
      else to_double (of_int a / of_int b))"

fun js_times :: "jsnum \<Rightarrow> rat \<Rightarrow> jsnum" where
  "js_times (Num x) c = to_double (x * c)"
| "js_times PosInfinity c = (if c = 0 then NaN else if c > 0 then PosInfinity else NegInfinity)"
| "js_times NegInfinity c = (if c = 0 then NaN else if c > 0 then NegInfinity else PosInfinity)"
| "js_times NaN c = NaN"

fun Math_round :: "jsnum \<Rightarrow> jsnum" where
  "Math_round (Num x) = Num (of_int \<lfloor>x + 1 / 2\<rfloor>)"
| "Math_round PosInfinity = PosInfinity"
| "Math_round NegInfinity = NegInfinity"
| "Math_round NaN = NaN"

subsection \<open>Records\<close>

record DownloadError =
  code :: string
  message :: string
  timestamp :: nat
  retryCount :: "nat option"

record DownloadTask =
  task_id :: string
  url :: string
  fileName :: string
  filePath :: string
  status :: DownloadStatus
  progress :: jsnum
  totalBytes :: int
  downloadedBytes :: int
  createdAt :: nat
  startedAt :: "nat option"
  completedAt :: "nat option"
  error :: "DownloadError option"
  resumeData :: "string option"

record DownloadOptions =
  o_fileName :: "string option"
  o_headers :: "(string \<times> string) list option"
  o_priority :: "int option"

record DownloadManagerConfig =
  maxConcurrentDownloads :: nat
  timeoutMs :: nat
  maxRetryAttempts :: nat
  progressUpdateThrottleMs :: nat
  autoRetryOnNetworkRestore :: bool

definition DEFAULT_CONFIG :: DownloadManagerConfig where
  "DEFAULT_CONFIG =
     \<lparr>maxConcurrentDownloads = 3, timeoutMs = 30000, maxRetryAttempts = 3,
      progressUpdateThrottleMs = 100, autoRetryOnNetworkRestore = True\<rparr>"


section \<open>Effects on the collaborators\<close>

text \<open>
  What the manager does to the outside is kept as a trace, in the order it happens:
  the events it emits to its subscribers (the task object passed is named by its id),
  the calls on the storage manager, the calls on the transfer primitive (the
  \<open>DownloadResumable\<close> of a task, named by the task id), and the lines written with
  \<open>console.error\<close>. \<open>Invoke_pause\<close> and \<open>Invoke_resume\<close> record that the manager's own
  \<open>pause\<close> or \<open>resume\<close> was entered for an id; they record the call and change nothing.
  The subscribers of the events are outside the model and are taken not to throw.
\<close>

datatype effect =
    Emit_progress string
  | Emit_status_change string DownloadStatus DownloadStatus
  | Emit_completed string
  | Emit_error string DownloadError
  | Emit_cancelled string
  | Emit_network_state_change NetworkState NetworkState
  | Emit_online
  | Emit_offline
  | Storage_initialize
  | Storage_loadTasks
  | Storage_saveMetadata DownloadTask
  | Storage_deleteFile string
  | Storage_deleteMetadata string
  | Storage_saveTasks "DownloadTask list"
  | HasEnoughStorage int
  | Transfer_create string
  | Transfer_downloadAsync string
  | Transfer_pauseAsync string
  | Console_error string
  | Invoke_pause string
  | Invoke_resume string

fun is_delete :: "effect \<Rightarrow> bool" where
  "is_delete (Storage_deleteFile p) = True"
| "is_delete (Storage_deleteMetadata i) = True"
| "is_delete e = False"

fun is_invoke :: "effect \<Rightarrow> bool" where
  "is_invoke (Invoke_pause i) = True"
| "is_invoke (Invoke_resume i) = True"
| "is_invoke e = False"

fun is_cancelled_event :: "effect \<Rightarrow> bool" where
  "is_cancelled_event (Emit_cancelled i) = True"
| "is_cancelled_event e = False"


section \<open>NetworkMonitor and DownloadManager state\<close>

record NetworkMonitor =
  currentState :: NetworkState
  checkInterval :: bool
  isMonitoring :: bool

definition new_NetworkMonitor :: NetworkMonitor where
  "new_NetworkMonitor = \<lparr>currentState = UNKNOWN, checkInterval = False, isMonitoring = False\<rparr>"

definition isOnline :: "NetworkMonitor \<Rightarrow> bool" where
  "isOnline n = (currentState n = ONLINE)"

text \<open>
  The registry \<open>tasks\<close> is a JavaScript \<open>Map\<close> from ids to task objects, which keeps
  insertion order: an association list, written with \<open>AList.update\<close> (replace in
  place or append), \<open>AList.delete\<close> and read with \<open>map_of\<close>. Its values are mutable
  objects, and a suspended call keeps the object it looked up before its \<open>await\<close>:
  an entry holds the number of the object (objects are numbered in the order they
  are created, \<open>allocated\<close> counting them) together with its current contents. An
  object is only ever registered under its own id, so an object a call has kept is
  still in the registry exactly when the entry under its id carries its number.

  The values of the map \<open>downloads\<close> are opaque transfer handles, so that map is kept
  as the ordered set of its keys. \<open>mqueue\<close> is the field \<open>queue\<close> of the class.
\<close>

record DownloadManager =
  tasks :: "(string \<times> nat \<times> DownloadTask) list"
  allocated :: nat
  downloads :: "string list"
  mqueue :: DownloadQueue
  network :: NetworkMonitor
  config :: DownloadManagerConfig
  isInitialized :: bool
  trace :: "effect list"

definition new_DownloadManager :: "DownloadManagerConfig \<Rightarrow> DownloadManager" where
  "new_DownloadManager cfg =
     \<lparr>tasks = [], allocated = 0, downloads = [],
      mqueue = new_DownloadQueue (maxConcurrentDownloads cfg),
      network = new_NetworkMonitor, config = cfg, isInitialized = False, trace = []\<rparr>"

definition perform :: "effect \<Rightarrow> DownloadManager \<Rightarrow> DownloadManager" where
  "perform e s = s\<lparr>trace := trace s @ [e]\<rparr>"

definition getTask :: "DownloadManager \<Rightarrow> string \<Rightarrow> DownloadTask option" where
  "getTask s tid = map_option snd (map_of (tasks s) tid)"

definition getAllTasks :: "DownloadManager \<Rightarrow> DownloadTask list" where
  "getAllTasks s = map (\<lambda>entry. snd (snd entry)) (tasks s)"

definition getActiveDownloads :: "DownloadManager \<Rightarrow> DownloadTask list" where
  "getActiveDownloads s = filter (\<lambda>task. status task = DOWNLOADING) (getAllTasks s)"

text \<open>
  \<open>tasks.set(id, task)\<close> with a newly created object, and \<open>tasks.delete(id)\<close>.
\<close>

definition register :: "string \<Rightarrow> DownloadTask \<Rightarrow> DownloadManager \<Rightarrow> DownloadManager" where
  "register tid task s =
     s\<lparr>tasks := AList.update tid (allocated s, task) (tasks s), allocated := Suc (allocated s)\<rparr>"

definition unregister :: "string \<Rightarrow> DownloadManager \<Rightarrow> DownloadManager" where
  "unregister tid s = s\<lparr>tasks := AList.delete tid (tasks s)\<rparr>"

text \<open>
  An assignment to fields of a task object. \<open>update_task\<close> is the assignment through
  an object that has just been looked up under \<open>tid\<close>. \<open>assign\<close> is the assignment
  through the object number \<open>obj\<close> that a call has kept, whose id is \<open>tid\<close>: it shows
  in the registry if that object is still the one registered, and nowhere otherwise.
\<close>

definition update_task ::
  "string \<Rightarrow> (DownloadTask \<Rightarrow> DownloadTask) \<Rightarrow> DownloadManager \<Rightarrow> DownloadManager" where
  "update_task tid f s =
     s\<lparr>tasks := AList.map_entry tid (apsnd f) (tasks s)\<rparr>"

definition assign ::
  "string \<Rightarrow> nat \<Rightarrow> (DownloadTask \<Rightarrow> DownloadTask) \<Rightarrow> DownloadManager \<Rightarrow> DownloadManager" where
  "assign tid obj f s =
     s\<lparr>tasks := AList.map_entry tid
          (\<lambda>entry. if fst entry = obj then apsnd f entry else entry) (tasks s)\<rparr>"

definition persistTasks :: "DownloadManager \<Rightarrow> DownloadManager" where
  "persistTasks s = perform (Storage_saveTasks (getAllTasks s)) s"

definition updateTaskStatus ::
  "string \<Rightarrow> DownloadStatus \<Rightarrow> DownloadManager \<Rightarrow> DownloadManager" where
  "updateTaskStatus tid newStatus s =
     (case getTask s tid of
        None \<Rightarrow> s
      | Some task \<Rightarrow>
          perform (Emit_status_change tid (status task) newStatus)
            (update_task tid (\<lambda>t. t\<lparr>status := newStatus\<rparr>) s))"


section \<open>Asynchronous methods\<close>

text \<open>
  An \<open>async\<close> method runs without interruption up to an \<open>await\<close>, and from the
  moment the awaited call settles up to the next one; in between, anything else may
  run. Each such piece of a method is a function of its own here. The later pieces
  take, as arguments, what the method has kept in its local variables (the task id,
  the number of the task object it looked up) and how the awaited call settled. A
  method that is given under its own name with all outcomes as arguments
  (\<open>download\<close>, \<open>pause\<close>, \<open>cancel\<close>, \<open>downloadSettled\<close>, \<open>pauseSettled\<close>,
  \<open>initialize\<close>, \<open>cleanup\<close>) is the run of its pieces one after the other with
  nothing in between. A method returns the exception it throws, if any (\<open>Some\<close> of
  the message of the \<open>Error\<close>), and the state it leaves. The time argument is the
  value of \<open>Date.now()\<close>, read once for each piece.
\<close>

subsection \<open>Starting transfers\<close>

text \<open>
  \<open>startDownload\<close> is called by \<open>processQueue\<close> without \<open>await\<close>, so inside
  \<open>processQueue\<close> it runs up to its first \<open>await\<close>: with a known size
  (\<open>totalBytes > 0\<close>) up to the storage check, otherwise, in \<open>begin_transfer\<close>, up to
  \<open>downloadAsync()\<close>. \<open>task.startedAt\<close> is assigned through the object the method
  looked up at its start, the status through \<open>updateTaskStatus\<close>, which looks the id
  up again.
\<close>

definition begin_transfer ::
  "string \<Rightarrow> nat \<Rightarrow> nat \<Rightarrow> DownloadManager \<Rightarrow> DownloadManager" where
  "begin_transfer tid obj now s =
     (let s1 = updateTaskStatus tid DOWNLOADING s;
          s2 = assign tid obj (\<lambda>t. t\<lparr>startedAt := Some now\<rparr>) s1;
          s3 = perform (Transfer_create tid) s2;
          s4 = s3\<lparr>downloads := set_add tid (downloads s3)\<rparr>
      in perform (Transfer_downloadAsync tid) s4)"

definition startDownload :: "string \<Rightarrow> nat \<Rightarrow> DownloadManager \<Rightarrow> DownloadManager" where
  "startDownload tid now s =
     (case map_of (tasks s) tid of
        None \<Rightarrow> s
      | Some (obj, task) \<Rightarrow>
          if totalBytes task > 0 then perform (HasEnoughStorage (totalBytes task)) s
          else begin_transfer tid obj now s)"

text \<open>
  The loop of \<open>processQueue\<close>. \<open>if (!taskId) break\<close> also leaves the loop on the
  empty string, which is falsy, after \<open>getNext\<close> has admitted it.
\<close>

function processQueue :: "nat \<Rightarrow> DownloadManager \<Rightarrow> DownloadManager" where
  "processQueue now s =
     (if hasCapacity (mqueue s) then
        (case getNext (mqueue s) of
           (None, q') \<Rightarrow> s\<lparr>mqueue := q'\<rparr>
         | (Some tid, q') \<Rightarrow>
             if tid = [] then s\<lparr>mqueue := q'\<rparr>
             else processQueue now (startDownload tid now (s\<lparr>mqueue := q'\<rparr>)))
      else s)"
  by pat_completeness auto
termination
  by (relation "measure (\<lambda>(now, s). length (queue (mqueue s)))")
     (auto simp: getNext_def startDownload_def begin_transfer_def updateTaskStatus_def
        update_task_def assign_def perform_def Let_def
        split: if_splits list.splits option.splits prod.splits)

definition handleDownloadError ::
  "string \<Rightarrow> DownloadError \<Rightarrow> nat \<Rightarrow> DownloadManager \<Rightarrow> DownloadManager" where
  "handleDownloadError tid err now s =
     (case getTask s tid of
        None \<Rightarrow> s
      | Some task \<Rightarrow>
          (let s1 = update_task tid (\<lambda>t. t\<lparr>error := Some err\<rparr>) s;
               s2 = updateTaskStatus tid FAILED s1;
               s3 = s2\<lparr>mqueue := complete_q tid (mqueue s2)\<rparr>;
               s4 = s3\<lparr>downloads := set_delete tid (downloads s3)\<rparr>;
               s5 = perform (Emit_error tid err) s4;
               s6 = persistTasks s5
           in processQueue now s6))"

text \<open>
  The piece of \<open>startDownload\<close> after \<open>await hasEnoughStorage(...)\<close>, which never
  rejects.
\<close>

definition storageChecked ::
  "string \<Rightarrow> nat \<Rightarrow> bool \<Rightarrow> nat \<Rightarrow> DownloadManager \<Rightarrow> DownloadManager" where
  "storageChecked tid obj hasSpace now s =
     (if \<not> hasSpace then
        handleDownloadError tid
          \<lparr>code = INSUFFICIENT_STORAGE, message = ''Insufficient storage space'',
           timestamp = now, retryCount = None\<rparr> now s
      else begin_transfer tid obj now s)"

text \<open>
  How \<open>downloadAsync()\<close> settles: with a result, with \<open>undefined\<close> (a paused
  transfer), or with a rejection. The \<open>catch\<close> block reads \<open>error.message\<close>: on a
  rejection with \<open>undefined\<close> or \<open>null\<close> that read throws, and \<open>startDownload\<close> ends
  there with nothing done; on any other value the message may be absent or empty, and
  then \<open>'Download failed'\<close> stands for it.
\<close>

datatype rejection = Rejected_nullish | Rejected_with "string option"

datatype download_outcome = Download_result | Download_undefined | Download_rejects rejection

definition error_message :: "string option \<Rightarrow> string" where
  "error_message m =
     (case m of None \<Rightarrow> ''Download failed''
      | Some msg \<Rightarrow> if msg = [] then ''Download failed'' else msg)"

text \<open>
  The piece of \<open>startDownload\<close> that follows a result of \<open>downloadAsync()\<close>, up to
  \<open>await this.persistTasks()\<close>. \<open>completedAt\<close>, \<open>progress\<close> and \<open>resumeData\<close> are
  assigned through the object the method looked up at its start.
\<close>

definition transferCompleted ::
  "string \<Rightarrow> nat \<Rightarrow> nat \<Rightarrow> DownloadManager \<Rightarrow> DownloadManager" where
  "transferCompleted tid obj now s =
     (let s1 = assign tid obj
                 (\<lambda>t. t\<lparr>completedAt := Some now, progress := Num 100, resumeData := None\<rparr>) s;
          s2 = updateTaskStatus tid COMPLETED s1;
          s3 = s2\<lparr>mqueue := complete_q tid (mqueue s2)\<rparr>;
          s4 = s3\<lparr>downloads := set_delete tid (downloads s3)\<rparr>;
          s5 = perform (Emit_completed tid) s4
      in persistTasks s5)"

text \<open>
  \<open>transferSettled\<close> is the piece of \<open>startDownload\<close> that runs when
  \<open>downloadAsync()\<close> settles; after a result it ends at the \<open>await\<close> of
  \<open>persistTasks\<close>, and \<open>processQueue\<close> is what remains. \<open>downloadSettled\<close> is the
  whole rest of the method.
\<close>

definition transferSettled ::
  "string \<Rightarrow> nat \<Rightarrow> download_outcome \<Rightarrow> nat \<Rightarrow> DownloadManager \<Rightarrow> DownloadManager" where
  "transferSettled tid obj outcome now s =
     (case outcome of
        Download_result \<Rightarrow> transferCompleted tid obj now s
      | Download_undefined \<Rightarrow> s
      | Download_rejects Rejected_nullish \<Rightarrow> s
      | Download_rejects (Rejected_with m) \<Rightarrow>
          handleDownloadError tid
            \<lparr>code = NETWORK_ERROR, message = error_message m,
             timestamp = now, retryCount = None\<rparr> now s)"

definition downloadSettled ::
  "string \<Rightarrow> nat \<Rightarrow> download_outcome \<Rightarrow> nat \<Rightarrow> DownloadManager \<Rightarrow> DownloadManager" where
  "downloadSettled tid obj outcome now s =
     (case outcome of
        Download_result \<Rightarrow> processQueue now (transferCompleted tid obj now s)
      | Download_undefined \<Rightarrow> transferSettled tid obj outcome now s
      | Download_rejects r \<Rightarrow> transferSettled tid obj outcome now s)"

definition handleProgress :: "string \<Rightarrow> int \<Rightarrow> int \<Rightarrow> DownloadManager \<Rightarrow> DownloadManager" where
  "handleProgress tid totalBytesWritten totalBytesExpectedToWrite s =
     (case getTask s tid of
        None \<Rightarrow> s
      | Some task \<Rightarrow>
          perform (Emit_progress tid)
            (update_task tid
               (\<lambda>t. t\<lparr>totalBytes := totalBytesExpectedToWrite,
                      downloadedBytes := totalBytesWritten,
                      progress := Math_round
                        (js_times (js_div totalBytesWritten totalBytesExpectedToWrite) 100)\<rparr>)
               s))"


subsection \<open>download\<close>

text \<open>
  \<open>validateUrl\<close> accepts a URL when \<open>new URL(url)\<close> parses and its protocol is
  \<open>http:\<close> or \<open>https:\<close>; the parse itself is the platform's, and its result (\<open>None\<close>
  when the constructor throws) is given in \<open>parsed_protocol\<close>. The other fields of
  \<open>download_env\<close> are the values of \<open>generateTaskId()\<close>,
  \<open>sanitizeFileName(url, options.fileName)\<close>, \<open>DOWNLOAD_DIRECTORY\<close> and
  \<open>Date.now()\<close> at the call.

  \<open>download_begin\<close> runs up to \<open>await this.storage.saveMetadata(task)\<close>, which never
  rejects, and returns the error thrown or the new id; \<open>download_saved\<close> is the rest.
\<close>

record download_env =
  parsed_protocol :: "string option"
  new_id :: string
  file_name :: string
  directory :: string
  clock :: nat

definition validateUrl :: "string option \<Rightarrow> bool" where
  "validateUrl protocol =
     (case protocol of None \<Rightarrow> False | Some p \<Rightarrow> p = ''http:'' \<or> p = ''https:'')"

definition getFilePath :: "string \<Rightarrow> string \<Rightarrow> string" where
  "getFilePath dir name = dir @ name"

definition download_begin ::
  "string \<Rightarrow> DownloadOptions \<Rightarrow> download_env \<Rightarrow> DownloadManager
     \<Rightarrow> (string + string) \<times> DownloadManager" where
  "download_begin u options env s =
     (if \<not> validateUrl (parsed_protocol env)
      then (Inl (INVALID_URL @ '': Invalid URL format''), s)
      else
        (let tid = new_id env;
             name = file_name env;
             path = getFilePath (directory env) name;
             task = \<lparr>task_id = tid, url = u, fileName = name, filePath = path,
                     status = PENDING, progress = Num 0, totalBytes = 0, downloadedBytes = 0,
                     createdAt = clock env, startedAt = None, completedAt = None,
                     error = None, resumeData = None\<rparr>;
             s1 = register tid task s
         in (Inr tid, perform (Storage_saveMetadata task) s1)))"

definition download_saved ::
  "string \<Rightarrow> DownloadOptions \<Rightarrow> nat \<Rightarrow> DownloadManager \<Rightarrow> DownloadManager" where
  "download_saved tid options now s =
     processQueue now
       (s\<lparr>mqueue := add tid (case o_priority options of None \<Rightarrow> 0 | Some p \<Rightarrow> p) now
                       (mqueue s)\<rparr>)"

definition download ::
  "string \<Rightarrow> DownloadOptions \<Rightarrow> download_env \<Rightarrow> DownloadManager
     \<Rightarrow> (string + string) \<times> DownloadManager" where
  "download u options env s =
     (case download_begin u options env s of
        (Inl err, s') \<Rightarrow> (Inl err, s')
      | (Inr tid, s') \<Rightarrow> (Inr tid, download_saved tid options (clock env) s'))"


subsection \<open>pause and resume\<close>

text \<open>
  \<open>pause_begin\<close> runs \<open>pause\<close> up to \<open>await downloadResumable.pauseAsync()\<close> and
  tells how it ended: by throwing, by returning, or waiting for the transfer
  primitive with the task object it has looked up. \<open>pauseResolved\<close> is the piece
  that runs when \<open>pauseAsync()\<close> settles, up to \<open>await this.persistTasks()\<close>; the
  resume data is assigned through that object, the status through
  \<open>updateTaskStatus\<close>. \<open>pausePersisted\<close> is the rest. The value stored as resume
  data is the field \<open>resumeData\<close> of a result object that has one, and
  \<open>JSON.stringify\<close> of any other result (both may be \<open>undefined\<close>).
\<close>

datatype pause_start = Pause_not_found | Pause_returned | Pause_awaiting nat

datatype pause_result = With_resumeData "string option" | Other_result "string option"

datatype pause_outcome = Pause_resolves pause_result | Pause_throws

definition resumeData_of :: "pause_result \<Rightarrow> string option" where
  "resumeData_of r = (case r of With_resumeData d \<Rightarrow> d | Other_result j \<Rightarrow> j)"

definition pause_begin :: "string \<Rightarrow> DownloadManager \<Rightarrow> pause_start \<times> DownloadManager" where
  "pause_begin tid s =
     (let s0 = perform (Invoke_pause tid) s in
      case map_of (tasks s0) tid of
        None \<Rightarrow> (Pause_not_found, s0)
      | Some (obj, task) \<Rightarrow>
          if status task \<noteq> DOWNLOADING then (Pause_returned, s0)
          else if tid \<in> set (downloads s0)
          then (Pause_awaiting obj, perform (Transfer_pauseAsync tid) s0)
          else (Pause_returned, s0))"

definition pauseResolved ::
  "string \<Rightarrow> nat \<Rightarrow> pause_outcome \<Rightarrow> DownloadManager \<Rightarrow> DownloadManager" where
  "pauseResolved tid obj outcome s =
     (case outcome of
        Pause_resolves pauseResult \<Rightarrow>
          (let s1 = assign tid obj (\<lambda>t. t\<lparr>resumeData := resumeData_of pauseResult\<rparr>) s;
               s2 = updateTaskStatus tid PAUSED s1
           in persistTasks s2)
      | Pause_throws \<Rightarrow> perform (Console_error ''Failed to pause download:'') s)"

definition pausePersisted :: "string \<Rightarrow> nat \<Rightarrow> DownloadManager \<Rightarrow> DownloadManager" where
  "pausePersisted tid now s =
     (let s4 = s\<lparr>mqueue := complete_q tid (mqueue s)\<rparr>;
          s5 = s4\<lparr>downloads := set_delete tid (downloads s4)\<rparr>
      in processQueue now s5)"

definition pauseSettled ::
  "string \<Rightarrow> nat \<Rightarrow> pause_outcome \<Rightarrow> nat \<Rightarrow> DownloadManager \<Rightarrow> DownloadManager" where
  "pauseSettled tid obj outcome now s =
     (case outcome of
        Pause_resolves pauseResult \<Rightarrow> pausePersisted tid now (pauseResolved tid obj outcome s)
      | Pause_throws \<Rightarrow> pauseResolved tid obj outcome s)"

definition pause ::
  "string \<Rightarrow> pause_outcome \<Rightarrow> nat \<Rightarrow> DownloadManager \<Rightarrow> string option \<times> DownloadManager" where
  "pause tid outcome now s =
     (case pause_begin tid s of
        (Pause_not_found, s') \<Rightarrow> (Some ''Task not found'', s')
      | (Pause_returned, s') \<Rightarrow> (None, s')
      | (Pause_awaiting obj, s') \<Rightarrow> (None, pauseSettled tid obj outcome now s'))"

text \<open>\<open>resume\<close> has no \<open>await\<close>: it runs in one piece.\<close>

definition resume :: "string \<Rightarrow> nat \<Rightarrow> DownloadManager \<Rightarrow> string option \<times> DownloadManager" where
  "resume tid now s =
     (let s0 = perform (Invoke_resume tid) s in
      case getTask s0 tid of
        None \<Rightarrow> (Some ''Task not found'', s0)
      | Some task \<Rightarrow>
          if status task \<noteq> PAUSED \<and> status task \<noteq> FAILED then (None, s0)
          else if \<not> isOnline (network s0) then (Some ''No network connection'', s0)
          else
            (let s1 = (if status task = FAILED
                       then update_task tid (\<lambda>t. t\<lparr>error := None\<rparr>) s0 else s0);
                 s2 = updateTaskStatus tid PENDING s1;
                 s3 = s2\<lparr>mqueue := add tid 0 now (mqueue s2)\<rparr>
             in (None, processQueue now s3)))"


subsection \<open>cancel\<close>

text \<open>
  \<open>cancel\<close> awaits four calls: \<open>pauseAsync()\<close> if the task has a transfer handle,
  \<open>storage.deleteFile\<close>, \<open>storage.deleteMetadata\<close> and \<open>persistTasks\<close>; the last
  three catch their own errors and never reject. \<open>cancel_begin\<close> runs up to the
  first of these and tells where it stopped; the path it passes on is
  \<open>task.filePath\<close> of the task object it looked up, a field that is never assigned
  after the object is created. \<open>cancel_pause_settled\<close>, \<open>cancel_file_deleted\<close> and
  \<open>cancel_metadata_deleted\<close> are the pieces that follow; what remains after the
  last \<open>await\<close> is \<open>processQueue\<close>.
\<close>

datatype cancel_start = Cancel_not_found | Cancel_awaits_pause string | Cancel_awaits_deleteFile

definition cancel_remove :: "string \<Rightarrow> string \<Rightarrow> DownloadManager \<Rightarrow> DownloadManager" where
  "cancel_remove tid path s =
     perform (Storage_deleteFile path) (s\<lparr>mqueue := remove tid (mqueue s)\<rparr>)"

definition cancel_begin :: "string \<Rightarrow> DownloadManager \<Rightarrow> cancel_start \<times> DownloadManager" where
  "cancel_begin tid s =
     (case getTask s tid of
        None \<Rightarrow> (Cancel_not_found, s)
      | Some task \<Rightarrow>
          if tid \<in> set (downloads s)
          then (Cancel_awaits_pause (filePath task), perform (Transfer_pauseAsync tid) s)
          else (Cancel_awaits_deleteFile, cancel_remove tid (filePath task) s))"

definition cancel_pause_settled ::
  "string \<Rightarrow> string \<Rightarrow> bool \<Rightarrow> DownloadManager \<Rightarrow> DownloadManager" where
  "cancel_pause_settled tid path pauseThrows s =
     (let b = (if pauseThrows
               then perform (Console_error ''Error pausing during cancel:'') s else s);
          c = b\<lparr>downloads := set_delete tid (downloads b)\<rparr>
      in cancel_remove tid path c)"

definition cancel_file_deleted :: "string \<Rightarrow> DownloadManager \<Rightarrow> DownloadManager" where
  "cancel_file_deleted tid s = perform (Storage_deleteMetadata tid) s"

definition cancel_metadata_deleted :: "string \<Rightarrow> DownloadManager \<Rightarrow> DownloadManager" where
  "cancel_metadata_deleted tid s =
     (let s5 = updateTaskStatus tid CANCELLED s;
          s6 = perform (Emit_cancelled tid) s5;
          s7 = unregister tid s6
      in persistTasks s7)"

definition cancel ::
  "string \<Rightarrow> bool \<Rightarrow> nat \<Rightarrow> DownloadManager \<Rightarrow> string option \<times> DownloadManager" where
  "cancel tid pauseThrows now s =
     (case cancel_begin tid s of
        (Cancel_not_found, s') \<Rightarrow> (Some ''Task not found'', s')
      | (Cancel_awaits_pause path, s') \<Rightarrow>
          (None, processQueue now (cancel_metadata_deleted tid (cancel_file_deleted tid
                   (cancel_pause_settled tid path pauseThrows s'))))
      | (Cancel_awaits_deleteFile, s') \<Rightarrow>
          (None, processQueue now (cancel_metadata_deleted tid (cancel_file_deleted tid s'))))"


section \<open>Network monitoring\<close>

text \<open>
  One reachability probe: the two flags \<open>isConnected\<close> and \<open>isInternetReachable\<close>
  (an absent flag is falsy), or an exception.

  The two handlers call \<open>resume\<close> and \<open>pause\<close> on each selected task and attach a
  \<open>catch\<close> that writes to the console; the line is recorded where the call is made.
\<close>

datatype probe = Probe bool bool | Probe_throws

definition handleNetworkOnline :: "nat \<Rightarrow> DownloadManager \<Rightarrow> DownloadManager" where
  "handleNetworkOnline now s =
     (if \<not> autoRetryOnNetworkRestore (config s) then s
      else
        foldl (\<lambda>s' task.
                 case resume (task_id task) now s' of
                   (Some err, s'') \<Rightarrow> perform (Console_error ''Failed to auto-resume:'') s''
                 | (None, s'') \<Rightarrow> s'')
          s
          (filter (\<lambda>task. status task = FAILED \<and>
                     (case error task of None \<Rightarrow> False | Some e \<Rightarrow> code e = NETWORK_ERROR))
             (getAllTasks s)))"

text \<open>
  \<open>handleNetworkOffline\<close> calls \<open>pause\<close> on each task without awaiting it, so each
  call runs up to its \<open>await\<close>.
\<close>

definition handleNetworkOffline :: "DownloadManager \<Rightarrow> DownloadManager" where
  "handleNetworkOffline s =
     foldl (\<lambda>s' task.
              case pause_begin (task_id task) s' of
                (Pause_not_found, s'') \<Rightarrow>
                  perform (Console_error ''Failed to pause on network loss:'') s''
              | (r, s'') \<Rightarrow> s'')
       s (getActiveDownloads s)"

text \<open>
  \<open>checkNetworkState\<close>, from the moment the probe settles. The manager subscribes
  its two handlers in \<open>initialize\<close>, just before it sets \<open>isInitialized\<close>, and never
  unsubscribes them: the handlers run on the signals exactly when \<open>isInitialized\<close>
  holds.
\<close>

definition checkNetworkState :: "probe \<Rightarrow> nat \<Rightarrow> DownloadManager \<Rightarrow> DownloadManager" where
  "checkNetworkState p now s =
     (case p of
        Probe_throws \<Rightarrow>
          (perform (Console_error ''Network check failed:'') s)
            \<lparr>network := (network s)\<lparr>currentState := UNKNOWN\<rparr>\<rparr>
      | Probe isConnected isInternetReachable \<Rightarrow>
          (let newState = (if isConnected \<and> isInternetReachable then ONLINE else OFFLINE);
               oldState = currentState (network s)
           in if newState \<noteq> oldState then
                (let s1 = s\<lparr>network := (network s)\<lparr>currentState := newState\<rparr>\<rparr>;
                     s2 = perform (Emit_network_state_change newState oldState) s1
                 in if newState = ONLINE then
                      (let s3 = perform Emit_online s2
                       in if isInitialized s3 then handleNetworkOnline now s3 else s3)
                    else
                      (let s3 = perform Emit_offline s2
                       in if isInitialized s3 then handleNetworkOffline s3 else s3))
              else s))"

definition startMonitoring :: "probe \<Rightarrow> nat \<Rightarrow> DownloadManager \<Rightarrow> DownloadManager" where
  "startMonitoring p now s =
     (if isMonitoring (network s) then s
      else
        (let s1 = s\<lparr>network := (network s)\<lparr>isMonitoring := True\<rparr>\<rparr>;
             s2 = checkNetworkState p now s1
         in s2\<lparr>network := (network s2)\<lparr>checkInterval := True\<rparr>\<rparr>))"

definition stopMonitoring :: "DownloadManager \<Rightarrow> DownloadManager" where
  "stopMonitoring s = s\<lparr>network := (network s)\<lparr>checkInterval := False, isMonitoring := False\<rparr>\<rparr>"


section \<open>Initialisation and clean-up\<close>

text \<open>
  \<open>initialize\<close>, as one run: \<open>dirOk\<close> tells whether \<open>storage.initialize()\<close>
  succeeds (\<open>ensureDownloadDirectory\<close> does not catch the file system's errors);
  \<open>savedTasks\<close> is what \<open>storage.loadTasks()\<close> returns, newly created objects;
  \<open>p\<close> is the first probe of \<open>startMonitoring\<close>. The exception of a failed
  \<open>storage.initialize()\<close> is the file system's; only that there is one is kept.
\<close>

definition load_task :: "DownloadManager \<Rightarrow> DownloadTask \<Rightarrow> DownloadManager" where
  "load_task s task =
     (let task' = (if status task = DOWNLOADING then task\<lparr>status := PAUSED\<rparr> else task)
      in register (task_id task') task' s)"

definition initialize ::
  "bool \<Rightarrow> DownloadTask list \<Rightarrow> probe \<Rightarrow> nat \<Rightarrow> DownloadManager
     \<Rightarrow> string option \<times> DownloadManager" where
  "initialize dirOk savedTasks p now s =
     (if isInitialized s then (None, s)
      else
        (let s1 = perform Storage_initialize s in
         if \<not> dirOk then (Some ''storage.initialize failed'', s1)
         else
           (let s2 = perform Storage_loadTasks s1;
                s3 = foldl load_task s2 savedTasks;
                s4 = startMonitoring p now s3
            in (None, s4\<lparr>isInitialized := True\<rparr>))))"

text \<open>
  \<open>cleanup\<close>, as one run: it awaits \<open>pause\<close> on each active task in turn;
  \<open>outcomes\<close> gives, for a task id, how its \<open>pauseAsync()\<close> settles. A rejected
  \<open>pause\<close> ends \<open>cleanup\<close>.
\<close>

fun pause_each ::
  "(string \<Rightarrow> pause_outcome) \<Rightarrow> nat \<Rightarrow> DownloadTask list \<Rightarrow> DownloadManager
     \<Rightarrow> string option \<times> DownloadManager" where
  "pause_each outcomes now [] s = (None, s)"
| "pause_each outcomes now (task # rest) s =
     (case pause (task_id task) (outcomes (task_id task)) now s of
        (Some err, s') \<Rightarrow> (Some err, s')
      | (None, s') \<Rightarrow> pause_each outcomes now rest s')"

definition cleanup ::
  "(string \<Rightarrow> pause_outcome) \<Rightarrow> nat \<Rightarrow> DownloadManager \<Rightarrow> string option \<times> DownloadManager" where
  "cleanup outcomes now s =
     (case pause_each outcomes now (getActiveDownloads s) s of
        (Some err, s') \<Rightarrow> (Some err, s')
      | (None, s') \<Rightarrow> (None, stopMonitoring (persistTasks s')))"


section \<open>Runs of the manager\<close>

text \<open>
  What can happen to a manager: a call of its public interface, which runs up to its
  first \<open>await\<close>; the settling of a call that a method is waiting for, which runs
  the next piece of that method with what the method has kept; a progress callback
  of a transfer; a tick of the network monitor's timer. \<open>Ev_persisted\<close> is the
  settling of the last \<open>persistTasks\<close> of \<open>cancel\<close> or of a completed transfer,
  after which \<open>processQueue\<close> remains. \<open>initialize\<close> and \<open>cleanup\<close> are taken
  as one run each: what is called while one of them waits, a second \<open>initialize\<close>
  included, is not part of a run. A run applies a list of such events in order.
\<close>

datatype event =
    Ev_initialize bool "DownloadTask list" probe nat
  | Ev_download string DownloadOptions download_env
  | Ev_download_saved string DownloadOptions nat
  | Ev_pause string
  | Ev_pause_settled string nat pause_outcome
  | Ev_pause_persisted string nat
  | Ev_resume string nat
  | Ev_cancel string
  | Ev_cancel_pause_settled string string bool
  | Ev_cancel_file_deleted string
  | Ev_cancel_metadata_deleted string
  | Ev_persisted nat
  | Ev_storage_checked string nat bool nat
  | Ev_download_settled string nat download_outcome nat
  | Ev_progress string int int
  | Ev_network_check probe nat
  | Ev_cleanup "string \<Rightarrow> pause_outcome" nat

fun step :: "event \<Rightarrow> DownloadManager \<Rightarrow> DownloadManager" where
  "step (Ev_initialize dirOk saved p now) s = snd (initialize dirOk saved p now s)"
| "step (Ev_download u options env) s = snd (download_begin u options env s)"
| "step (Ev_download_saved tid options now) s = download_saved tid options now s"
| "step (Ev_pause tid) s = snd (pause_begin tid s)"
| "step (Ev_pause_settled tid obj outcome) s = pauseResolved tid obj outcome s"
| "step (Ev_pause_persisted tid now) s = pausePersisted tid now s"
| "step (Ev_resume tid now) s = snd (resume tid now s)"
| "step (Ev_cancel tid) s = snd (cancel_begin tid s)"
| "step (Ev_cancel_pause_settled tid path pauseThrows) s =
     cancel_pause_settled tid path pauseThrows s"
| "step (Ev_cancel_file_deleted tid) s = cancel_file_deleted tid s"
| "step (Ev_cancel_metadata_deleted tid) s = cancel_metadata_deleted tid s"
| "step (Ev_persisted now) s = processQueue now s"
| "step (Ev_storage_checked tid obj hasSpace now) s = storageChecked tid obj hasSpace now s"
| "step (Ev_download_settled tid obj outcome now) s = transferSettled tid obj outcome now s"
| "step (Ev_progress tid written expected) s = handleProgress tid written expected s"
| "step (Ev_network_check p now) s =
     (if checkInterval (network s) then checkNetworkState p now s else s)"
| "step (Ev_cleanup outcomes now) s = snd (cleanup outcomes now s)"

fun run :: "event list \<Rightarrow> DownloadManager \<Rightarrow> DownloadManager" where
  "run [] s = s"
| "run (e # es) s = run es (step e s)"


section \<open>Auxiliary notions and example states\<close>

text \<open>The ids a queue holds, pending or active.\<close>

definition queue_ids :: "DownloadQueue \<Rightarrow> string set" where
  "queue_ids q = set (activeDownloads q) \<union> taskId ` set (queue q)"

text \<open>
  The effects of starting a transfer: none of them is a deletion in storage, a
  cancelled event, or an entry of \<open>pause\<close> or \<open>resume\<close>.
\<close>

definition start_effect :: "effect \<Rightarrow> bool" where
  "start_effect e = (\<not> is_delete e \<and> \<not> is_invoke e \<and> \<not> is_cancelled_event e)"

text \<open>
  Example states: one submission to a new manager with the default configuration,
  which is admitted at once, and the same after its transfer has completed. The task
  object of the submission is the first the manager has seen, number 0.
\<close>

definition no_options :: DownloadOptions where
  "no_options = \<lparr>o_fileName = None, o_headers = None, o_priority = None\<rparr>"

definition env1 :: download_env where
  "env1 = \<lparr>parsed_protocol = Some ''https:'', new_id = ''t1'', file_name = ''a.mp4'',
            directory = ''/docs/downloads/'', clock = 1\<rparr>"

definition task1 :: DownloadTask where
  "task1 = \<lparr>task_id = ''t1'', url = ''https://x/a.mp4'', fileName = ''a.mp4'',
             filePath = ''/docs/downloads/a.mp4'', status = PENDING, progress = Num 0,
             totalBytes = 0, downloadedBytes = 0, createdAt = 1, startedAt = None,
             completedAt = None, error = None, resumeData = None\<rparr>"

definition st_downloading :: DownloadManager where
  "st_downloading = run [Ev_download ''https://x/a.mp4'' no_options env1,
       Ev_download_saved ''t1'' no_options 1]
     (new_DownloadManager DEFAULT_CONFIG)"

definition st_completed :: DownloadManager where
  "st_completed = run [Ev_download ''https://x/a.mp4'' no_options env1,
       Ev_download_saved ''t1'' no_options 1,
       Ev_download_settled ''t1'' 0 Download_result 9,
       Ev_persisted 9]
     (new_DownloadManager DEFAULT_CONFIG)"

text \<open>
  A persisted snapshot with an active task and a completed one; a persisted snapshot
  with two failed tasks, and a state reached with it: the manager is initialised with
  the two failed tasks, a third task is submitted and admitted, and a probe of the
  network has thrown, which leaves the network state unknown.
\<close>

definition saved_tasks :: "DownloadTask list" where
  "saved_tasks =
     [task1\<lparr>status := DOWNLOADING, progress := Num 40, totalBytes := 1000, downloadedBytes := 400\<rparr>,
      task1\<lparr>task_id := ''t2'', status := COMPLETED, progress := Num 100\<rparr>]"

definition failed_tasks :: "DownloadTask list" where
  "failed_tasks =
     [task1\<lparr>task_id := ''t2'', status := FAILED,
        error := Some \<lparr>code = NETWORK_ERROR, message = ''Download failed'', timestamp = 7,
                       retryCount = None\<rparr>\<rparr>,
      task1\<lparr>task_id := ''t3'', status := FAILED,
        error := Some \<lparr>code = INSUFFICIENT_STORAGE, message = ''Insufficient storage space'',
                       timestamp = 8, retryCount = None\<rparr>\<rparr>]"

definition st_network :: DownloadManager where
  "st_network = run [Ev_initialize True failed_tasks (Probe True True) 0,
       Ev_download ''https://x/a.mp4'' no_options env1,
       Ev_download_saved ''t1'' no_options 1,
       Ev_network_check Probe_throws 2]
     (new_DownloadManager DEFAULT_CONFIG)"

text \<open>
  The priority a submission is queued with, \<open>options.priority || 0\<close>, and two
  submissions made one after the other.
\<close>

definition priority_of :: "DownloadOptions \<Rightarrow> int" where
  "priority_of options = (case o_priority options of None \<Rightarrow> 0 | Some p \<Rightarrow> p)"

definition submit_two ::
  "string \<Rightarrow> DownloadOptions \<Rightarrow> download_env \<Rightarrow> string \<Rightarrow> DownloadOptions \<Rightarrow> download_env
     \<Rightarrow> DownloadManager \<Rightarrow> DownloadManager" where
  "submit_two u1 o1 e1 u2 o2 e2 s = snd (download u2 o2 e2 (snd (download u1 o1 e1 s)))"

text \<open>
  Examples with the concurrency limit 1: a submission of priority 0 followed by one of
  priority 5 to a new manager, and a new manager after one submission.
\<close>

definition config1 :: DownloadManagerConfig where
  "config1 = DEFAULT_CONFIG\<lparr>maxConcurrentDownloads := 1\<rparr>"

definition options0 :: DownloadOptions where
  "options0 = \<lparr>o_fileName = None, o_headers = None, o_priority = Some 0\<rparr>"

definition options5 :: DownloadOptions where
  "options5 = \<lparr>o_fileName = None, o_headers = None, o_priority = Some 5\<rparr>"

definition env_of :: "string \<Rightarrow> nat \<Rightarrow> download_env" where
  "env_of tid t = \<lparr>parsed_protocol = Some ''https:'', new_id = tid, file_name = tid @ ''.mp4'',
                    directory = ''/docs/downloads/'', clock = t\<rparr>"

definition st_low_first :: DownloadManager where
  "st_low_first = run [Ev_download ''https://x/a.mp4'' options0 (env_of ''a'' 1),
        Ev_download_saved ''a'' options0 1,
        Ev_download ''https://x/b.mp4'' options5 (env_of ''b'' 2),
        Ev_download_saved ''b'' options5 2]
     (new_DownloadManager config1)"

definition st_one_running :: DownloadManager where
  "st_one_running = run [Ev_download ''https://x/a.mp4'' options0 (env_of ''a'' 1),
        Ev_download_saved ''a'' options0 1]
     (new_DownloadManager config1)"

text \<open>
  The part of the resume-token rule that concerns completed tasks: a \<open>Completed\<close>
  task carries no resume data. \<open>snapshot_ok\<close> asks the same of the snapshots that
  an \<open>initialize\<close> event loads.
\<close>

definition completed_without_token :: "DownloadTask \<Rightarrow> bool" where
  "completed_without_token t = (status t = COMPLETED \<longrightarrow> resumeData t = None)"

definition token_cleared_on_completion :: "DownloadManager \<Rightarrow> bool" where
  "token_cleared_on_completion s = list_all completed_without_token (getAllTasks s)"

fun snapshot_ok :: "event \<Rightarrow> bool" where
  "snapshot_ok (Ev_initialize dirOk saved p now) = list_all completed_without_token saved"
| "snapshot_ok e = True"

text \<open>
  \<open>completes_registered e s\<close>: if \<open>e\<close> is the completion of a transfer (a result of
  \<open>downloadAsync()\<close>) and the id of its task is registered in \<open>s\<close>, then the task
  object that \<open>startDownload\<close> has kept is the one registered. A run is
  \<open>regular\<close> if each of its events loads such a snapshot and completes such a
  transfer, in the state it happens in.
\<close>

fun completes_registered :: "event \<Rightarrow> DownloadManager \<Rightarrow> bool" where
  "completes_registered (Ev_download_settled tid obj outcome now) s =
     (outcome = Download_result \<longrightarrow>
        (case map_of (tasks s) tid of None \<Rightarrow> True | Some entry \<Rightarrow> fst entry = obj))"
| "completes_registered e s = True"

fun regular :: "event list \<Rightarrow> DownloadManager \<Rightarrow> bool" where
  "regular [] s = True"
| "regular (e # es) s = (snapshot_ok e \<and> completes_registered e s \<and> regular es (step e s))"

text \<open>
  A run in which a task is submitted and admitted while the network is online, then
  paused with the resume data \<open>tok\<close>, then resumed. The two tasks that
  \<open>initialize\<close> loads are the objects 0 and 1, the submitted task is object 2.
\<close>

definition st_online :: DownloadManager where
  "st_online = run [Ev_initialize True failed_tasks (Probe True True) 0,
       Ev_download ''https://x/a.mp4'' no_options env1,
       Ev_download_saved ''t1'' no_options 1]
     (new_DownloadManager DEFAULT_CONFIG)"

definition st_paused :: DownloadManager where
  "st_paused = run [Ev_initialize True failed_tasks (Probe True True) 0,
       Ev_download ''https://x/a.mp4'' no_options env1,
       Ev_download_saved ''t1'' no_options 1,
       Ev_pause ''t1'',
       Ev_pause_settled ''t1'' 2 (Pause_resolves (With_resumeData (Some ''tok''))),
       Ev_pause_persisted ''t1'' 3]
     (new_DownloadManager DEFAULT_CONFIG)"

definition st_resumed :: DownloadManager where
  "st_resumed = run [Ev_initialize True failed_tasks (Probe True True) 0,
       Ev_download ''https://x/a.mp4'' no_options env1,
       Ev_download_saved ''t1'' no_options 1,
       Ev_pause ''t1'',
       Ev_pause_settled ''t1'' 2 (Pause_resolves (With_resumeData (Some ''tok''))),
       Ev_pause_persisted ''t1'' 3,
       Ev_resume ''t1'' 4]
     (new_DownloadManager DEFAULT_CONFIG)"


text \<open>
  The state a new manager is in after \<open>initialize\<close> has loaded the two failed tasks
  with the network reachable.
\<close>

definition st_initialized :: DownloadManager where
  "st_initialized = run [Ev_initialize True failed_tasks (Probe True True) 0]
     (new_DownloadManager DEFAULT_CONFIG)"

text \<open>
  A run in which the paused task is cancelled, and resumed while \<open>cancel\<close> waits
  for \<open>storage.deleteFile\<close>.
\<close>

definition st_cancel_resumed :: DownloadManager where
  "st_cancel_resumed = run [Ev_cancel ''t1'',
       Ev_resume ''t1'' 5,
       Ev_cancel_file_deleted ''t1'',
       Ev_cancel_metadata_deleted ''t1'',
       Ev_persisted 6]
     st_paused"

text \<open>
  A run in which a task is submitted and admitted before \<open>initialize\<close>, which
  then loads a snapshot holding a task of the same id, a new object; the task is
  resumed, admitted a second time and paused with the resume data \<open>tok\<close>; then the
  transfer that was started first completes.
\<close>

definition st_stale_completion :: DownloadManager where
  "st_stale_completion = run [Ev_download ''https://x/a.mp4'' no_options env1,
       Ev_download_saved ''t1'' no_options 1,
       Ev_initialize True [task1\<lparr>status := DOWNLOADING\<rparr>] (Probe True True) 2,
       Ev_resume ''t1'' 3,
       Ev_pause ''t1'',
       Ev_pause_settled ''t1'' 1 (Pause_resolves (With_resumeData (Some ''tok''))),
       Ev_pause_persisted ''t1'' 4,
       Ev_download_settled ''t1'' 0 Download_result 5,
       Ev_persisted 5]
     (new_DownloadManager DEFAULT_CONFIG)"


section \<open>Properties of the queue\<close>

lemma set_size_set_add: "set_size (set_add x xs) \<le> Suc (set_size xs)"
  by (simp add: set_add_def set_size_def)

lemma set_size_set_delete: "set_size (set_delete x xs) \<le> set_size xs"
  by (simp add: set_delete_def set_size_def)

lemma findIndex_ge: "- 1 \<le> findIndex P xs"
  by (induction xs) (auto simp: Let_def)

lemma findIndex_none: "findIndex P xs = - 1 \<longleftrightarrow> (\<forall>x \<in> set xs. \<not> P x)"
proof (induction xs)
  case Nil
  show ?case by simp
next
  case (Cons x xs)
  have "- 1 \<le> findIndex P xs" by (rule findIndex_ge)
  then have "findIndex P xs + 1 \<noteq> - 1" by arith
  with Cons show ?case by (auto simp: Let_def)
qed

lemma findIndex_takeWhile:
  "findIndex P xs \<noteq> - 1 \<Longrightarrow> nat (findIndex P xs) = length (takeWhile (\<lambda>x. \<not> P x) xs)"
proof (induction xs)
  case Nil
  then show ?case by simp
next
  case (Cons x xs)
  show ?case
  proof (cases "P x")
    case True
    then show ?thesis by simp
  next
    case False
    with Cons.prems have ne: "findIndex P xs \<noteq> - 1"
      by (auto simp: Let_def split: if_splits)
    have "- 1 \<le> findIndex P xs" by (rule findIndex_ge)
    with ne have "0 \<le> findIndex P xs" by arith
    then have "nat (findIndex P xs + 1) = Suc (nat (findIndex P xs))" by arith
    with False ne Cons.IH show ?thesis by (simp add: Let_def)
  qed
qed

lemma findIndex_insert:
  "(if findIndex P xs = - 1 then xs @ [y] else splice_insert (nat (findIndex P xs)) y xs)
     = takeWhile (\<lambda>x. \<not> P x) xs @ [y] @ dropWhile (\<lambda>x. \<not> P x) xs"
proof (cases "findIndex P xs = - 1")
  case True
  then have none: "\<forall>x \<in> set xs. \<not> P x"
    by (simp add: findIndex_none)
  show ?thesis
    using True none
    by (simp add: takeWhile_eq_all_conv [THEN iffD2] dropWhile_eq_Nil_conv [THEN iffD2])
next
  case False
  then have "nat (findIndex P xs) = length (takeWhile (\<lambda>x. \<not> P x) xs)"
    by (rule findIndex_takeWhile)
  with False show ?thesis
    by (simp add: splice_insert_def takeWhile_eq_take [symmetric]
        dropWhile_eq_drop [symmetric])
qed

lemma add_queue:
  "queue (add tid p now q) =
     takeWhile (\<lambda>e. \<not> priority e < p) (queue q)
       @ [\<lparr>taskId = tid, priority = p, addedAt = now\<rparr>]
       @ dropWhile (\<lambda>e. \<not> priority e < p) (queue q)"
proof -
  have "queue (add tid p now q) =
      (if findIndex (\<lambda>e. priority e < p) (queue q) = - 1
       then queue q @ [\<lparr>taskId = tid, priority = p, addedAt = now\<rparr>]
       else splice_insert (nat (findIndex (\<lambda>e. priority e < p) (queue q)))
              \<lparr>taskId = tid, priority = p, addedAt = now\<rparr> (queue q))"
    by (simp add: add_def Let_def)
  then show ?thesis by (simp only: findIndex_insert)
qed

lemma add_others [simp]:
  "activeDownloads (add tid p now q) = activeDownloads q"
  "maxConcurrent (add tid p now q) = maxConcurrent q"
  by (simp_all add: add_def Let_def)

lemma dropWhile_below:
  "prio_sorted xs \<Longrightarrow> x \<in> set (dropWhile (\<lambda>e. \<not> priority e < p) xs) \<Longrightarrow> priority x < p"
  by (induction xs) (auto simp: prio_sorted_def split: if_splits)

lemma takeWhile_above:
  "x \<in> set (takeWhile (\<lambda>e. \<not> priority e < p) xs) \<Longrightarrow> p \<le> priority x"
  by (auto dest: set_takeWhileD)

lemma sorted_wrt_insert_mid:
  "sorted_wrt R (xs @ ys) \<Longrightarrow> \<forall>x \<in> set xs. R x i \<Longrightarrow> \<forall>y \<in> set ys. R i y \<Longrightarrow>
   sorted_wrt R (xs @ [i] @ ys)"
  by (auto simp: sorted_wrt_append)

lemma prio_sorted_add:
  assumes "prio_sorted (queue q)"
  shows "prio_sorted (queue (add tid p now q))"
proof -
  let ?P = "\<lambda>e. \<not> priority e < p"
  let ?R = "\<lambda>a b. priority a \<ge> priority b"
  let ?i = "\<lparr>taskId = tid, priority = p, addedAt = now\<rparr>"
  have s: "sorted_wrt ?R (takeWhile ?P (queue q) @ dropWhile ?P (queue q))"
    using assms by (simp add: prio_sorted_def)
  have lo: "\<forall>y \<in> set (dropWhile ?P (queue q)). ?R ?i y"
    using assms by (auto dest: dropWhile_below)
  have hi: "\<forall>x \<in> set (takeWhile ?P (queue q)). ?R x ?i"
    using takeWhile_above [of _ p "queue q"] by simp
  have "sorted_wrt ?R (takeWhile ?P (queue q) @ [?i] @ dropWhile ?P (queue q))"
    using s hi lo by (rule sorted_wrt_insert_mid)
  then show ?thesis
    unfolding prio_sorted_def add_queue .
qed

lemma filter_add:
  assumes "prio_sorted (queue q)"
  shows "filter (\<lambda>e. priority e = r) (queue (add tid p now q)) =
         filter (\<lambda>e. priority e = r) (queue q)
           @ filter (\<lambda>e. priority e = r) [\<lparr>taskId = tid, priority = p, addedAt = now\<rparr>]"
proof -
  define tw where "tw = takeWhile (\<lambda>e. \<not> priority e < p) (queue q)"
  define dw where "dw = dropWhile (\<lambda>e. \<not> priority e < p) (queue q)"
  define i where "i = \<lparr>taskId = tid, priority = p, addedAt = now\<rparr>"
  let ?F = "filter (\<lambda>e. priority e = r)"
  have q: "queue q = tw @ dw"
    by (simp add: tw_def dw_def)
  have a: "queue (add tid p now q) = tw @ [i] @ dw"
    unfolding tw_def dw_def i_def by (rule add_queue)
  have lo: "\<forall>x \<in> set dw. priority x < p"
    using assms dropWhile_below unfolding dw_def by blast
  have "?F dw = [] \<or> ?F [i] = []"
  proof (cases "r = p")
    case True
    with lo have "?F dw = []" by (auto simp: filter_empty_conv)
    then show ?thesis ..
  next
    case False
    then have "?F [i] = []" by (simp add: i_def)
    then show ?thesis ..
  qed
  then have "?F (tw @ [i] @ dw) = ?F (tw @ dw) @ ?F [i]"
    by auto
  then show ?thesis
    unfolding a q i_def .
qed

lemma adds_sorted:
  "prio_sorted (queue q) \<Longrightarrow> prio_sorted (queue (adds rs q))"
  by (induction rs arbitrary: q) (simp_all add: prio_sorted_add)

lemma adds_filter:
  "prio_sorted (queue q) \<Longrightarrow>
   filter (\<lambda>e. priority e = r) (queue (adds rs q)) =
     filter (\<lambda>e. priority e = r) (queue q) @ filter (\<lambda>e. priority e = r) (map item_of rs)"
proof (induction rs arbitrary: q)
  case Nil
  then show ?case by simp
next
  case (Cons x rs)
  have "prio_sorted (queue (add (fst x) (fst (snd x)) (snd (snd x)) q))"
    using Cons.prems by (rule prio_sorted_add)
  from Cons.IH [OF this] show ?case
    using Cons.prems by (simp add: filter_add item_of_def)
qed

lemma adds_others [simp]:
  "activeDownloads (adds rs q) = activeDownloads q"
  "maxConcurrent (adds rs q) = maxConcurrent q"
  by (induction rs arbitrary: q) simp_all

lemma getNexts_take:
  "set_size (activeDownloads q) + k \<le> maxConcurrent q \<Longrightarrow>
   fst (getNexts k q) = map taskId (take k (queue q))"
proof (induction k arbitrary: q)
  case 0
  show ?case by simp
next
  case (Suc k)
  show ?case
  proof (cases "queue q")
    case Nil
    then have "getNext q = (None, q)" by (simp add: getNext_def)
    moreover have "set_size (activeDownloads q) + k \<le> maxConcurrent q" using Suc.prems by simp
    ultimately show ?thesis using Suc.IH [of q] Nil by simp
  next
    case (Cons item rest)
    let ?q' = "q\<lparr>queue := rest, activeDownloads := set_add (taskId item) (activeDownloads q)\<rparr>"
    have g: "getNext q = (Some (taskId item), ?q')"
      using Cons Suc.prems by (simp add: getNext_def)
    have "set_size (activeDownloads ?q') \<le> Suc (set_size (activeDownloads q))"
      by (simp add: set_size_set_add)
    with Suc.prems have "set_size (activeDownloads ?q') + k \<le> maxConcurrent ?q'" by simp
    from Suc.IH [OF this] show ?thesis using g Cons by simp
  qed
qed

lemma drain_take:
  "activeDownloads q = [] \<Longrightarrow> 0 < maxConcurrent q \<Longrightarrow>
   drain n q = map taskId (take n (queue q))"
proof (induction n arbitrary: q)
  case 0
  show ?case by simp
next
  case (Suc n)
  show ?case
  proof (cases "queue q")
    case Nil
    then show ?thesis by (simp add: getNext_def)
  next
    case (Cons item rest)
    let ?q' = "q\<lparr>queue := rest, activeDownloads := set_add (taskId item) (activeDownloads q)\<rparr>"
    have g: "getNext q = (Some (taskId item), ?q')"
      using Cons Suc.prems by (simp add: getNext_def set_size_def)
    have "activeDownloads (complete_q (taskId item) ?q') = []"
      using Suc.prems by (simp add: complete_q_def set_add_def set_delete_def)
    moreover have "0 < maxConcurrent (complete_q (taskId item) ?q')"
      using Suc.prems by (simp add: complete_q_def)
    ultimately have "drain n (complete_q (taskId item) ?q')
        = map taskId (take n (queue (complete_q (taskId item) ?q')))"
      by (rule Suc.IH)
    then show ?thesis using g Cons by (simp add: complete_q_def)
  qed
qed

lemma queue_step_bound:
  "set_size (activeDownloads q) \<le> maxConcurrent q \<Longrightarrow>
   set_size (activeDownloads (queue_step opn q)) \<le> maxConcurrent (queue_step opn q)"
proof (cases opn)
  case GetNext
  assume "set_size (activeDownloads q) \<le> maxConcurrent q"
  then show ?thesis using GetNext set_size_set_add [of "taskId (hd (queue q))" "activeDownloads q"]
    by (auto simp: getNext_def split: list.splits)
next
  case (Complete t)
  assume "set_size (activeDownloads q) \<le> maxConcurrent q"
  then show ?thesis using Complete set_size_set_delete [of t "activeDownloads q"]
    by (simp add: complete_q_def)
next
  case (Remove t)
  assume "set_size (activeDownloads q) \<le> maxConcurrent q"
  then show ?thesis using Remove set_size_set_delete [of t "activeDownloads q"]
    by (simp add: remove_def)
qed (simp_all add: clear_def set_size_def)

lemma queue_step_max [simp]: "maxConcurrent (queue_step opn q) = maxConcurrent q"
  by (cases opn) (auto simp: getNext_def complete_q_def remove_def clear_def split: list.splits)

lemma queue_run_max [simp]: "maxConcurrent (queue_run ops q) = maxConcurrent q"
  by (induction ops arbitrary: q) simp_all

lemma queue_run_bound:
  "set_size (activeDownloads q) \<le> maxConcurrent q \<Longrightarrow>
   set_size (activeDownloads (queue_run ops q)) \<le> maxConcurrent q"
proof (induction ops arbitrary: q)
  case Nil
  then show ?case by simp
next
  case (Cons opn ops)
  from Cons.prems have "set_size (activeDownloads (queue_step opn q)) \<le> maxConcurrent (queue_step opn q)"
    by (rule queue_step_bound)
  from Cons.IH [OF this] show ?case by simp
qed


section \<open>Claims about the queue\<close>

lemma queue_step_distinct:
  "distinct (activeDownloads q) \<Longrightarrow> distinct (activeDownloads (queue_step opn q))"
  by (cases opn)
     (auto simp: getNext_def complete_q_def remove_def clear_def set_add_def set_delete_def
           split: list.splits)

lemma queue_run_distinct:
  "distinct (activeDownloads q) \<Longrightarrow> distinct (activeDownloads (queue_run ops q))"
  by (induction ops arbitrary: q) (simp_all add: queue_step_distinct)

text \<open>
  C1. Whatever operations (add, getNext, complete, remove, clear) are applied to a new
  queue with limit \<open>m\<close>, the active set never has more than \<open>m\<close> members (its list
  has no duplicates, so its length is the size of the set), and when it has \<open>m\<close>
  members \<open>getNext\<close> returns \<open>null\<close> and changes nothing.
\<close>

theorem active_never_exceeds_maxConcurrent:
  "set_size (activeDownloads (queue_run ops (new_DownloadQueue m))) \<le> m
   \<and> distinct (activeDownloads (queue_run ops (new_DownloadQueue m)))
   \<and> (set_size (activeDownloads (queue_run ops (new_DownloadQueue m))) = m \<longrightarrow>
        getNext (queue_run ops (new_DownloadQueue m)) = (None, queue_run ops (new_DownloadQueue m)))"
proof -
  have "set_size (activeDownloads (new_DownloadQueue m)) \<le> maxConcurrent (new_DownloadQueue m)"
    by (simp add: new_DownloadQueue_def set_size_def)
  then have "set_size (activeDownloads (queue_run ops (new_DownloadQueue m)))
      \<le> maxConcurrent (new_DownloadQueue m)"
    by (rule queue_run_bound)
  moreover have "distinct (activeDownloads (queue_run ops (new_DownloadQueue m)))"
    by (rule queue_run_distinct) (simp add: new_DownloadQueue_def)
  moreover have "maxConcurrent (queue_run ops (new_DownloadQueue m)) = m"
    by (simp add: new_DownloadQueue_def)
  ultimately show ?thesis
    by (simp add: new_DownloadQueue_def getNext_def)
qed

theorem active_never_exceeds_maxConcurrent_witness:
  "set_size (activeDownloads (queue_run [Add ''a'' 0 1, GetNext, Add ''b'' 7 2, GetNext]
      (new_DownloadQueue 1))) = 1
   \<and> getNext (queue_run [Add ''a'' 0 1, GetNext, Add ''b'' 7 2, GetNext] (new_DownloadQueue 1))
       = (None, queue_run [Add ''a'' 0 1, GetNext, Add ''b'' 7 2, GetNext] (new_DownloadQueue 1))"
proof -
  have "set_size (activeDownloads (queue_run [Add ''a'' 0 1, GetNext, Add ''b'' 7 2, GetNext]
      (new_DownloadQueue 1))) = 1"
    by code_simp
  with active_never_exceeds_maxConcurrent
         [of "[Add ''a'' 0 1, GetNext, Add ''b'' 7 2, GetNext]" 1]
  show ?thesis by simp
qed

text \<open>
  C2. After any sequence of \<open>add\<close> calls on a new queue with a limit \<open>m > 0\<close>,
  successive \<open>getNext\<close> calls return the ids of the pending entries from the front:
  \<open>k \<le> m\<close> calls in a row return the first \<open>k\<close>, and calls that each follow the
  completion of the task admitted before return them all. The pending entries are in
  non-increasing priority order, and the entries of each priority are those that were
  added with it, in the order they were added.
\<close>

theorem getNext_priority_then_fifo:
  assumes "k \<le> m" "0 < m"
  shows "fst (getNexts k (adds rs (new_DownloadQueue m)))
           = map taskId (take k (queue (adds rs (new_DownloadQueue m))))
       \<and> drain n (adds rs (new_DownloadQueue m))
           = map taskId (take n (queue (adds rs (new_DownloadQueue m))))
       \<and> prio_sorted (queue (adds rs (new_DownloadQueue m)))
       \<and> (\<forall>r. filter (\<lambda>e. priority e = r) (queue (adds rs (new_DownloadQueue m)))
               = filter (\<lambda>e. priority e = r) (map item_of rs))"
proof -
  let ?q = "adds rs (new_DownloadQueue m)"
  have s0: "prio_sorted (queue (new_DownloadQueue m))"
    by (simp add: new_DownloadQueue_def prio_sorted_def)
  have "set_size (activeDownloads ?q) + k \<le> maxConcurrent ?q"
    using assms by (simp add: new_DownloadQueue_def set_size_def)
  then have "fst (getNexts k ?q) = map taskId (take k (queue ?q))"
    by (rule getNexts_take)
  moreover have "drain n ?q = map taskId (take n (queue ?q))"
    using assms by (intro drain_take) (simp_all add: new_DownloadQueue_def)
  moreover have "prio_sorted (queue ?q)"
    using s0 by (rule adds_sorted)
  moreover have "\<forall>r. filter (\<lambda>e. priority e = r) (queue ?q)
               = filter (\<lambda>e. priority e = r) (map item_of rs)"
    using adds_filter [OF s0, of _ rs] by (simp add: new_DownloadQueue_def)
  ultimately show ?thesis by blast
qed

theorem getNext_priority_then_fifo_witness:
  "(2::nat) \<le> 2 \<and> (0::nat) < 2
   \<and> fst (getNexts 2 (adds [(''a'', 0, 1), (''b'', 5, 2), (''c'', 0, 3), (''d'', 5, 4)]
            (new_DownloadQueue 2))) = [''b'', ''d'']
   \<and> drain 4 (adds [(''a'', 0, 1), (''b'', 5, 2), (''c'', 0, 3), (''d'', 5, 4)]
            (new_DownloadQueue 2)) = [''b'', ''d'', ''a'', ''c'']
   \<and> prio_sorted (queue (adds [(''a'', 0, 1), (''b'', 5, 2), (''c'', 0, 3), (''d'', 5, 4)]
            (new_DownloadQueue 2)))"
proof -
  have t: "map taskId (queue (adds [(''a'', 0, 1), (''b'', 5, 2), (''c'', 0, 3), (''d'', 5, 4)]
            (new_DownloadQueue 2))) = [''b'', ''d'', ''a'', ''c'']"
    by (simp add: add_def new_DownloadQueue_def splice_insert_def)
  have h: "(2::nat) \<le> 2" "(0::nat) < 2" by simp_all
  from getNext_priority_then_fifo [OF h, of "[(''a'', 0, 1), (''b'', 5, 2), (''c'', 0, 3), (''d'', 5, 4)]" 4] t
  show ?thesis by (simp add: take_map [symmetric])
qed

text \<open>
  C3, as amended. \<open>add\<close> inserts the new entry at the first position, from the front,
  whose existing entry has a priority strictly less than the new priority (every entry
  before it has a priority greater than or equal to the new one), and at the end when
  there is no such position.
\<close>

theorem add_inserts_before_first_lower_priority:
  "\<exists>i \<le> length (queue q).
      queue (add tid p now q)
        = take i (queue q) @ [\<lparr>taskId = tid, priority = p, addedAt = now\<rparr>] @ drop i (queue q)
      \<and> (\<forall>j < i. priority (queue q ! j) \<ge> p)
      \<and> (i < length (queue q) \<longrightarrow> priority (queue q ! i) < p)"
proof -
  let ?P = "\<lambda>e. \<not> priority e < p"
  let ?i = "length (takeWhile ?P (queue q))"
  have "?i \<le> length (queue q)"
    by (rule length_takeWhile_le)
  moreover have "queue (add tid p now q)
        = take ?i (queue q) @ [\<lparr>taskId = tid, priority = p, addedAt = now\<rparr>] @ drop ?i (queue q)"
    by (simp only: add_queue takeWhile_eq_take [symmetric] dropWhile_eq_drop [symmetric])
  moreover have "\<forall>j < ?i. priority (queue q ! j) \<ge> p"
  proof (intro allI impI)
    fix j assume j: "j < ?i"
    then have "takeWhile ?P (queue q) ! j \<in> set (takeWhile ?P (queue q))" by simp
    then have "?P (takeWhile ?P (queue q) ! j)" by (rule set_takeWhileD [THEN conjunct2])
    with j show "priority (queue q ! j) \<ge> p" by (simp add: takeWhile_nth)
  qed
  moreover have "?i < length (queue q) \<longrightarrow> priority (queue q ! ?i) < p"
    using nth_length_takeWhile [of ?P "queue q"] by blast
  ultimately show ?thesis by blast
qed

theorem add_inserts_before_first_lower_priority_witness:
  "queue (add ''b'' 5 2 example_queue)
     = queue example_queue @ [\<lparr>taskId = ''b'', priority = 5, addedAt = 2\<rparr>]"
proof -
  have q: "queue example_queue = [\<lparr>taskId = ''a'', priority = 5, addedAt = 1\<rparr>]"
    by (simp add: example_queue_def add_def new_DownloadQueue_def)
  from add_inserts_before_first_lower_priority [of example_queue "''b''" 5 2]
  obtain i where i: "i \<le> length (queue example_queue)"
      "queue (add ''b'' 5 2 example_queue)
        = take i (queue example_queue) @ [\<lparr>taskId = ''b'', priority = 5, addedAt = 2\<rparr>]
            @ drop i (queue example_queue)"
      "i < length (queue example_queue) \<longrightarrow> priority (queue example_queue ! i) < 5"
    by blast
  from i(1,3) have "i = 1" by (cases i) (simp_all add: q)
  with i(2) show ?thesis by (simp add: q)
qed

text \<open>
  C3 as stated fails: with one pending entry \<open>a\<close> of priority 5, adding \<open>b\<close> with
  priority 5 puts \<open>b\<close> after \<open>a\<close>, while the first position whose priority is not
  greater than 5 is the front.
\<close>

theorem add_spec_insertion_counterexample:
  "map taskId (queue (add ''b'' 5 2 example_queue)) = [''a'', ''b'']
   \<and> map taskId (spec_insert \<lparr>taskId = ''b'', priority = 5, addedAt = 2\<rparr> (queue example_queue))
       = [''b'', ''a'']"
  by (simp add: example_queue_def add_def new_DownloadQueue_def spec_insert_def splice_insert_def)


section \<open>Properties of the manager\<close>

declare processQueue.simps [simp del]

lemma perform_fields [simp]:
  "tasks (perform e s) = tasks s"
  "allocated (perform e s) = allocated s"
  "downloads (perform e s) = downloads s"
  "mqueue (perform e s) = mqueue s"
  "network (perform e s) = network s"
  "config (perform e s) = config s"
  "isInitialized (perform e s) = isInitialized s"
  "trace (perform e s) = trace s @ [e]"
  by (simp_all add: perform_def)

lemma getTask_perform [simp]: "getTask (perform e s) tid = getTask s tid"
  by (simp add: getTask_def)

lemma getAllTasks_perform [simp]: "getAllTasks (perform e s) = getAllTasks s"
  by (simp add: getAllTasks_def)

lemma map_entry_absent: "map_of xs k = None \<Longrightarrow> AList.map_entry k f xs = xs"
  by (induction xs) (auto split: if_splits)

lemma map_of_map_entry_apply:
  "map_of (AList.map_entry k f xs) j =
     (if j = k then map_option f (map_of xs k) else map_of xs j)"
  by (auto simp: map_of_map_entry split: option.splits)

lemma update_task_fields [simp]:
  "tasks (update_task tid f s) = AList.map_entry tid (apsnd f) (tasks s)"
  "allocated (update_task tid f s) = allocated s"
  "downloads (update_task tid f s) = downloads s"
  "mqueue (update_task tid f s) = mqueue s"
  "network (update_task tid f s) = network s"
  "config (update_task tid f s) = config s"
  "isInitialized (update_task tid f s) = isInitialized s"
  "trace (update_task tid f s) = trace s"
  by (simp_all add: update_task_def)

lemma assign_fields [simp]:
  "allocated (assign tid obj f s) = allocated s"
  "downloads (assign tid obj f s) = downloads s"
  "mqueue (assign tid obj f s) = mqueue s"
  "network (assign tid obj f s) = network s"
  "config (assign tid obj f s) = config s"
  "isInitialized (assign tid obj f s) = isInitialized s"
  "trace (assign tid obj f s) = trace s"
  by (simp_all add: assign_def)

text \<open>
  An assignment through the object that is registered is the assignment through a new
  look-up; one through any other object leaves the registry as it is.
\<close>

lemma assign_registered:
  "map_of (tasks s) tid = Some (obj, t) \<Longrightarrow> assign tid obj f s = update_task tid f s"
proof -
  have "\<And>xs. map_of xs tid = Some (obj, t) \<Longrightarrow>
      AList.map_entry tid (\<lambda>entry. if fst entry = obj then apsnd f entry else entry) xs
        = AList.map_entry tid (apsnd f) xs"
  proof -
    fix xs :: "(string \<times> nat \<times> DownloadTask) list"
    show "map_of xs tid = Some (obj, t) \<Longrightarrow>
      AList.map_entry tid (\<lambda>entry. if fst entry = obj then apsnd f entry else entry) xs
        = AList.map_entry tid (apsnd f) xs"
      by (induction xs) (auto split: if_splits)
  qed
  then show "map_of (tasks s) tid = Some (obj, t) \<Longrightarrow> assign tid obj f s = update_task tid f s"
    by (simp add: assign_def update_task_def)
qed

lemma assign_replaced:
  "map_of (tasks s) tid = Some (other, t) \<Longrightarrow> other \<noteq> obj \<Longrightarrow> assign tid obj f s = s"
proof -
  have "\<And>xs. map_of xs tid = Some (other, t) \<Longrightarrow> other \<noteq> obj \<Longrightarrow>
      AList.map_entry tid (\<lambda>entry. if fst entry = obj then apsnd f entry else entry) xs = xs"
  proof -
    fix xs :: "(string \<times> nat \<times> DownloadTask) list"
    show "map_of xs tid = Some (other, t) \<Longrightarrow> other \<noteq> obj \<Longrightarrow>
      AList.map_entry tid (\<lambda>entry. if fst entry = obj then apsnd f entry else entry) xs = xs"
      by (induction xs) (auto split: if_splits)
  qed
  then show "map_of (tasks s) tid = Some (other, t) \<Longrightarrow> other \<noteq> obj \<Longrightarrow> assign tid obj f s = s"
    by (simp add: assign_def)
qed

lemma assign_absent: "map_of (tasks s) tid = None \<Longrightarrow> assign tid obj f s = s"
  by (simp add: assign_def map_entry_absent)

lemma getTask_Some_entry:
  "getTask s tid = Some t \<longleftrightarrow> (\<exists>obj. map_of (tasks s) tid = Some (obj, t))"
  by (auto simp: getTask_def)

lemma getTask_None_entry: "getTask s tid = None \<longleftrightarrow> map_of (tasks s) tid = None"
  by (simp add: getTask_def)

lemma getTask_update_task:
  "getTask (update_task tid f s) k =
     (if k = tid then map_option f (getTask s k) else getTask s k)"
  by (auto simp: getTask_def map_of_map_entry split: option.splits)

lemma entry_update_task:
  "map_of (tasks (update_task tid f s)) k =
     (if k = tid then map_option (apsnd f) (map_of (tasks s) k) else map_of (tasks s) k)"
  by (auto simp: map_of_map_entry split: option.splits)

lemma entry_assign:
  "map_of (tasks (assign tid obj f s)) k =
     (if k = tid
      then map_option (\<lambda>entry. if fst entry = obj then apsnd f entry else entry)
             (map_of (tasks s) k)
      else map_of (tasks s) k)"
  by (auto simp: assign_def map_of_map_entry split: option.splits)

lemma getTask_assign:
  "getTask (assign tid obj f s) k =
     (if k = tid
      then map_option (\<lambda>entry. if fst entry = obj then f (snd entry) else snd entry)
             (map_of (tasks s) k)
      else getTask s k)"
  by (cases "map_of (tasks s) k") (auto simp: getTask_def assign_def map_of_map_entry_apply)

lemma persistTasks_fields [simp]:
  "tasks (persistTasks s) = tasks s"
  "allocated (persistTasks s) = allocated s"
  "downloads (persistTasks s) = downloads s"
  "mqueue (persistTasks s) = mqueue s"
  "network (persistTasks s) = network s"
  "config (persistTasks s) = config s"
  "isInitialized (persistTasks s) = isInitialized s"
  "trace (persistTasks s) = trace s @ [Storage_saveTasks (getAllTasks s)]"
  by (simp_all add: persistTasks_def)

lemma getTask_persistTasks [simp]: "getTask (persistTasks s) k = getTask s k"
  by (simp add: getTask_def)

lemma updateTaskStatus_eq: "updateTaskStatus tid st s =
    (case getTask s tid of None \<Rightarrow> s
     | Some t \<Rightarrow> perform (Emit_status_change tid (status t) st)
         (update_task tid (\<lambda>t. t\<lparr>status := st\<rparr>) s))"
  by (simp add: updateTaskStatus_def)

lemma updateTaskStatus_fields [simp]:
  "tasks (updateTaskStatus tid st s) = AList.map_entry tid (apsnd (\<lambda>t. t\<lparr>status := st\<rparr>)) (tasks s)"
  "allocated (updateTaskStatus tid st s) = allocated s"
  "downloads (updateTaskStatus tid st s) = downloads s"
  "mqueue (updateTaskStatus tid st s) = mqueue s"
  "network (updateTaskStatus tid st s) = network s"
  "config (updateTaskStatus tid st s) = config s"
  "isInitialized (updateTaskStatus tid st s) = isInitialized s"
  by (simp_all add: updateTaskStatus_def getTask_def map_entry_absent split: option.splits)

lemma trace_updateTaskStatus:
  "trace (updateTaskStatus tid st s) =
     trace s @ (case getTask s tid of None \<Rightarrow> []
                | Some t \<Rightarrow> [Emit_status_change tid (status t) st])"
  by (simp add: updateTaskStatus_def split: option.splits)

lemma getTask_updateTaskStatus:
  "getTask (updateTaskStatus tid st s) k =
     (if k = tid then map_option (\<lambda>t. t\<lparr>status := st\<rparr>) (getTask s k) else getTask s k)"
  by (auto simp: getTask_def map_of_map_entry split: option.splits)

lemma entry_updateTaskStatus:
  "map_of (tasks (updateTaskStatus tid st s)) k =
     (if k = tid then map_option (apsnd (\<lambda>t. t\<lparr>status := st\<rparr>)) (map_of (tasks s) k)
      else map_of (tasks s) k)"
  by (auto simp: map_of_map_entry split: option.splits)

lemma begin_transfer_fields [simp]:
  "mqueue (begin_transfer tid obj now s) = mqueue s"
  "allocated (begin_transfer tid obj now s) = allocated s"
  "network (begin_transfer tid obj now s) = network s"
  "config (begin_transfer tid obj now s) = config s"
  "isInitialized (begin_transfer tid obj now s) = isInitialized s"
  "downloads (begin_transfer tid obj now s) = set_add tid (downloads s)"
  by (simp_all add: begin_transfer_def Let_def)

lemma getTask_assign_None [simp]: "getTask (assign tid obj f s) k = None \<longleftrightarrow> getTask s k = None"
  unfolding getTask_assign by (simp add: getTask_def)

lemma getTask_assign_same:
  assumes "getTask s tid = Some t"
  shows "getTask (assign tid obj f s) tid = Some t
     \<or> getTask (assign tid obj f s) tid = Some (f t)"
proof -
  from assms obtain a where "map_of (tasks s) tid = Some (a, t)"
    by (auto simp: getTask_def)
  then show ?thesis by (cases "a = obj") (simp_all add: getTask_assign)
qed

lemma trace_begin_transfer:
  "trace (begin_transfer tid obj now s) =
     trace s @ (case getTask s tid of None \<Rightarrow> []
                | Some t \<Rightarrow> [Emit_status_change tid (status t) DOWNLOADING])
       @ [Transfer_create tid, Transfer_downloadAsync tid]"
  by (simp add: begin_transfer_def Let_def trace_updateTaskStatus)

lemma startDownload_fields [simp]:
  "mqueue (startDownload tid now s) = mqueue s"
  "allocated (startDownload tid now s) = allocated s"
  "network (startDownload tid now s) = network s"
  "config (startDownload tid now s) = config s"
  "isInitialized (startDownload tid now s) = isInitialized s"
  by (simp_all add: startDownload_def split: option.splits prod.splits)

text \<open>
  \<open>startDownload\<close> assigns \<open>startedAt\<close> through the object it has just looked up.
\<close>

lemma startDownload_eq:
  "startDownload tid now s =
     (case getTask s tid of
        None \<Rightarrow> s
      | Some task \<Rightarrow>
          if totalBytes task > 0 then perform (HasEnoughStorage (totalBytes task)) s
          else perform (Transfer_downloadAsync tid)
                 ((perform (Transfer_create tid)
                    (update_task tid (\<lambda>t. t\<lparr>startedAt := Some now\<rparr>)
                       (updateTaskStatus tid DOWNLOADING s)))
                  \<lparr>downloads := set_add tid (downloads s)\<rparr>))"
proof (cases "map_of (tasks s) tid")
  case None
  then show ?thesis by (simp add: startDownload_def getTask_def)
next
  case (Some entry)
  obtain obj task where e: "entry = (obj, task)" by (cases entry)
  have "map_of (tasks (updateTaskStatus tid DOWNLOADING s)) tid
      = Some (obj, task\<lparr>status := DOWNLOADING\<rparr>)"
    using Some e by (simp add: map_of_map_entry_apply)
  then have "assign tid obj (\<lambda>t. t\<lparr>startedAt := Some now\<rparr>) (updateTaskStatus tid DOWNLOADING s)
      = update_task tid (\<lambda>t. t\<lparr>startedAt := Some now\<rparr>) (updateTaskStatus tid DOWNLOADING s)"
    by (rule assign_registered)
  then show ?thesis
    using Some e by (simp add: startDownload_def getTask_def begin_transfer_def Let_def)
qed

lemma processQueue_preserves:
  assumes q: "\<And>s t q'. P s \<Longrightarrow> getNext (mqueue s) = (t, q') \<Longrightarrow> P (s\<lparr>mqueue := q'\<rparr>)"
    and st: "\<And>s tid t. P s \<Longrightarrow> P (startDownload tid t s)"
  shows "P s \<Longrightarrow> P (processQueue now s)"
proof (induction now s rule: processQueue.induct)
  case (1 now s)
  show ?case
  proof (cases "hasCapacity (mqueue s)")
    case False
    then show ?thesis using "1.prems" by (simp add: processQueue.simps)
  next
    case True
    obtain t q' where g: "getNext (mqueue s) = (t, q')" by (cases "getNext (mqueue s)")
    have Pq: "P (s\<lparr>mqueue := q'\<rparr>)" using "1.prems" g by (rule q)
    show ?thesis
    proof (cases t)
      case None
      with True g Pq show ?thesis by (simp add: processQueue.simps)
    next
      case (Some tid)
      show ?thesis
      proof (cases "tid = []")
        case True
        with \<open>hasCapacity (mqueue s)\<close> g Some Pq show ?thesis by (simp add: processQueue.simps)
      next
        case False
        have "P (startDownload tid now (s\<lparr>mqueue := q'\<rparr>))" using Pq by (rule st)
        then have "P (processQueue now (startDownload tid now (s\<lparr>mqueue := q'\<rparr>)))"
          using "1.IH" [OF True g [symmetric] Some False] by simp
        with True g Some False show ?thesis by (simp add: processQueue.simps)
      qed
    qed
  qed
qed

lemma getNext_queue_ids: "getNext q = (t, q') \<Longrightarrow> queue_ids q' \<subseteq> queue_ids q"
  by (auto simp: getNext_def queue_ids_def set_add_def split: if_splits list.splits)

lemma getTask_mqueue [simp]: "getTask (s\<lparr>mqueue := q\<rparr>) k = getTask s k"
  by (simp add: getTask_def)

lemma getTask_downloads [simp]: "getTask (s\<lparr>downloads := d\<rparr>) k = getTask s k"
  by (simp add: getTask_def)

lemma getTask_startDownload:
  "getTask (startDownload tid now s) k =
     (if k = tid \<and> (\<exists>t. getTask s tid = Some t \<and> \<not> totalBytes t > 0)
      then map_option (\<lambda>t. t\<lparr>status := DOWNLOADING, startedAt := Some now\<rparr>) (getTask s k)
      else getTask s k)"
  by (auto simp: startDownload_eq getTask_def map_of_map_entry_apply split: option.splits)

lemma getTask_startDownload_None:
  "getTask (startDownload tid now s) k = None \<longleftrightarrow> getTask s k = None"
  by (auto simp: getTask_startDownload)

lemma startDownload_trace:
  "\<exists>ext. trace (startDownload tid now s) = trace s @ ext \<and> (\<forall>e \<in> set ext. start_effect e)"
  by (auto simp: startDownload_eq trace_updateTaskStatus start_effect_def split: option.splits)

lemma processQueue_trace:
  "\<exists>ext. trace (processQueue now s) = trace s @ ext \<and> (\<forall>e \<in> set ext. start_effect e)"
proof -
  let ?P = "\<lambda>s'::DownloadManager. \<exists>ext. trace s' = trace s @ ext \<and> (\<forall>e \<in> set ext. start_effect e)"
  have "?P (processQueue now s)"
  proof (rule processQueue_preserves [where P = ?P])
    show "?P s" by simp
  next
    fix s' t q' assume "?P s'" then show "?P (s'\<lparr>mqueue := q'\<rparr>)" by simp
  next
    fix s' tid t assume "?P s'"
    then obtain e1 where e1: "trace s' = trace s @ e1" "\<forall>e \<in> set e1. start_effect e" by blast
    from startDownload_trace [of tid t s'] obtain e2
      where e2: "trace (startDownload tid t s') = trace s' @ e2" "\<forall>e \<in> set e2. start_effect e"
      by blast
    from e1 e2 have "trace (startDownload tid t s') = trace s @ (e1 @ e2)
        \<and> (\<forall>e \<in> set (e1 @ e2). start_effect e)" by auto
    then show "?P (startDownload tid t s')" by blast
  qed
  then show ?thesis .
qed

lemma processQueue_getTask_None:
  "getTask s k = None \<Longrightarrow> getTask (processQueue now s) k = None"
  by (rule processQueue_preserves [where P = "\<lambda>s::DownloadManager. getTask s k = None"])
     (simp_all add: getTask_startDownload_None)

lemma processQueue_queue_ids:
  "k \<notin> queue_ids (mqueue s) \<Longrightarrow> k \<notin> queue_ids (mqueue (processQueue now s))"
proof (rule processQueue_preserves [where P = "\<lambda>s::DownloadManager. k \<notin> queue_ids (mqueue s)"])
  fix s' t q' assume "k \<notin> queue_ids (mqueue s')" "getNext (mqueue s') = (t, q')"
  then show "k \<notin> queue_ids (mqueue (s'\<lparr>mqueue := q'\<rparr>))"
    using getNext_queue_ids by fastforce
qed simp_all

lemma filter_quiet:
  assumes "\<forall>e \<in> set ext. start_effect e"
  shows "filter is_delete ext = []" "filter is_cancelled_event ext = []" "filter is_invoke ext = []"
  using assms by (auto simp: start_effect_def filter_empty_conv)

lemma processQueue_no_capacity: "\<not> hasCapacity (mqueue s) \<Longrightarrow> processQueue now s = s"
  by (simp add: processQueue.simps)

lemma processQueue_empty: "queue (mqueue s) = [] \<Longrightarrow> processQueue now s = s"
  by (simp add: processQueue.simps getNext_def)

lemma processQueue_admit:
  "hasCapacity (mqueue s) \<Longrightarrow> queue (mqueue s) = item # rest \<Longrightarrow> taskId item \<noteq> [] \<Longrightarrow>
   processQueue now s =
     processQueue now (startDownload (taskId item) now
       (s\<lparr>mqueue := (mqueue s)\<lparr>queue := rest,
            activeDownloads := set_add (taskId item) (activeDownloads (mqueue s))\<rparr>\<rparr>))"
  by (subst processQueue.simps) (simp add: getNext_def hasCapacity_def)

lemmas eval_defs = run.simps step.simps download_begin_def download_saved_def
  validateUrl_def getFilePath_def Let_def register_def unregister_def
  new_DownloadManager_def new_DownloadQueue_def DEFAULT_CONFIG_def add_def perform_def
  hasCapacity_def set_size_def set_add_def set_delete_def startDownload_def begin_transfer_def
  updateTaskStatus_def update_task_def assign_def getTask_def getAllTasks_def persistTasks_def
  complete_q_def remove_def

lemma st_downloading_eq:
  "st_downloading =
    \<lparr>tasks = [(''t1'', 0, task1\<lparr>status := DOWNLOADING, startedAt := Some 1\<rparr>)],
     allocated = 1,
     downloads = [''t1''],
     mqueue = \<lparr>queue = [], activeDownloads = [''t1''], maxConcurrent = 3\<rparr>,
     network = new_NetworkMonitor, config = DEFAULT_CONFIG, isInitialized = False,
     trace = [Storage_saveMetadata task1, Emit_status_change ''t1'' PENDING DOWNLOADING,
              Transfer_create ''t1'', Transfer_downloadAsync ''t1'']\<rparr>"
  unfolding st_downloading_def
  by (simp add: eval_defs env1_def no_options_def task1_def processQueue_admit processQueue_empty)

lemma st_completed_eq:
  "st_completed =
    \<lparr>tasks = [(''t1'', 0, task1\<lparr>status := COMPLETED, startedAt := Some 1, completedAt := Some 9,
                         progress := Num 100\<rparr>)],
     allocated = 1,
     downloads = [],
     mqueue = \<lparr>queue = [], activeDownloads = [], maxConcurrent = 3\<rparr>,
     network = new_NetworkMonitor, config = DEFAULT_CONFIG, isInitialized = False,
     trace = [Storage_saveMetadata task1, Emit_status_change ''t1'' PENDING DOWNLOADING,
              Transfer_create ''t1'', Transfer_downloadAsync ''t1'',
              Emit_status_change ''t1'' DOWNLOADING COMPLETED, Emit_completed ''t1'',
              Storage_saveTasks [task1\<lparr>status := COMPLETED, startedAt := Some 1,
                 completedAt := Some 9, progress := Num 100\<rparr>]]\<rparr>"
proof -
  have "st_completed = processQueue 9 (transferSettled ''t1'' 0 Download_result 9 st_downloading)"
    by (simp add: st_completed_def st_downloading_def)
  then show ?thesis
    by (simp add: st_downloading_eq transferSettled_def transferCompleted_def eval_defs task1_def
        processQueue_empty)
qed


section \<open>Properties of cancel\<close>

text \<open>
  \<open>cancel\<close> run without interruption: the code of the method read as one sequence.
\<close>

lemma cancel_eq:
  "cancel tid pauseThrows now s =
     (case getTask s tid of
        None \<Rightarrow> (Some ''Task not found'', s)
      | Some task \<Rightarrow>
          (let s1 = (if tid \<in> set (downloads s)
                     then (let a = perform (Transfer_pauseAsync tid) s;
                               b = (if pauseThrows
                                    then perform (Console_error ''Error pausing during cancel:'') a
                                    else a)
                           in b\<lparr>downloads := set_delete tid (downloads b)\<rparr>)
                     else s);
               s2 = s1\<lparr>mqueue := remove tid (mqueue s1)\<rparr>;
               s3 = perform (Storage_deleteFile (filePath task)) s2;
               s4 = perform (Storage_deleteMetadata tid) s3;
               s5 = updateTaskStatus tid CANCELLED s4;
               s6 = perform (Emit_cancelled tid) s5;
               s7 = s6\<lparr>tasks := AList.delete tid (tasks s6)\<rparr>;
               s8 = persistTasks s7
           in (None, processQueue now s8)))"
  by (simp add: cancel_def cancel_begin_def cancel_pause_settled_def cancel_remove_def
      cancel_file_deleted_def cancel_metadata_deleted_def unregister_def Let_def
      split: option.splits)

lemma cancel_before_processQueue:
  assumes "getTask s tid = Some task"
  shows "\<exists>s8. cancel tid pauseThrows now s = (None, processQueue now s8)
      \<and> getTask s8 tid = None
      \<and> tid \<notin> queue_ids (mqueue s8)
      \<and> filter is_delete (trace s8)
           = filter is_delete (trace s) @ [Storage_deleteFile (filePath task), Storage_deleteMetadata tid]
      \<and> filter is_cancelled_event (trace s8)
           = filter is_cancelled_event (trace s) @ [Emit_cancelled tid]
      \<and> Emit_status_change tid (status task) CANCELLED \<in> set (trace s8)"
proof -
  define s1 where "s1 = (if tid \<in> set (downloads s)
                     then (let a = perform (Transfer_pauseAsync tid) s;
                               b = (if pauseThrows
                                    then perform (Console_error ''Error pausing during cancel:'') a
                                    else a)
                           in b\<lparr>downloads := set_delete tid (downloads b)\<rparr>)
                     else s)"
  define s4 where "s4 = perform (Storage_deleteMetadata tid)
      (perform (Storage_deleteFile (filePath task)) (s1\<lparr>mqueue := remove tid (mqueue s1)\<rparr>))"
  define s8 where "s8 = persistTasks
      ((perform (Emit_cancelled tid) (updateTaskStatus tid CANCELLED s4))
         \<lparr>tasks := AList.delete tid (tasks (perform (Emit_cancelled tid) (updateTaskStatus tid CANCELLED s4)))\<rparr>)"
  have c: "cancel tid pauseThrows now s = (None, processQueue now s8)"
    using assms by (simp add: cancel_eq Let_def s1_def s4_def s8_def)
  have t1: "getTask s1 tid = Some task"
    using assms by (simp add: s1_def Let_def getTask_def)
  have tr1: "filter is_delete (trace s1) = filter is_delete (trace s)"
    "filter is_cancelled_event (trace s1) = filter is_cancelled_event (trace s)"
    by (simp_all add: s1_def Let_def)
  have t4: "getTask s4 tid = Some task"
    using t1 by (simp add: s4_def getTask_def)
  have q4: "tid \<notin> queue_ids (mqueue s4)"
    by (auto simp: s4_def queue_ids_def remove_def set_delete_def)
  have tr4: "filter is_delete (trace s4)
      = filter is_delete (trace s) @ [Storage_deleteFile (filePath task), Storage_deleteMetadata tid]"
    "filter is_cancelled_event (trace s4) = filter is_cancelled_event (trace s)"
    using tr1 by (simp_all add: s4_def)
  have "getTask s8 tid = None"
    by (simp add: s8_def getTask_def delete_conv')
  moreover have "tid \<notin> queue_ids (mqueue s8)"
    using q4 by (simp add: s8_def)
  moreover have "filter is_delete (trace s8)
      = filter is_delete (trace s) @ [Storage_deleteFile (filePath task), Storage_deleteMetadata tid]"
    using tr4 t4 by (simp add: s8_def trace_updateTaskStatus)
  moreover have "filter is_cancelled_event (trace s8)
      = filter is_cancelled_event (trace s) @ [Emit_cancelled tid]"
    using tr4 t4 by (simp add: s8_def trace_updateTaskStatus)
  moreover have "Emit_status_change tid (status task) CANCELLED \<in> set (trace s8)"
    using t4 by (simp add: s8_def trace_updateTaskStatus)
  ultimately show ?thesis using c by blast
qed

text \<open>
  If nothing else runs while \<open>cancel\<close> waits, the task is gone from the registry and
  from the queue afterwards, and its file and metadata have been deleted once each.
\<close>

lemma cancel_uninterrupted:
  assumes "getTask s tid = Some task"
  shows "fst (cancel tid pauseThrows now s) = None
      \<and> getTask (snd (cancel tid pauseThrows now s)) tid = None
      \<and> tid \<notin> set (getQueuedTaskIds (mqueue (snd (cancel tid pauseThrows now s))))
      \<and> \<not> isActive tid (mqueue (snd (cancel tid pauseThrows now s)))
      \<and> filter is_delete (trace (snd (cancel tid pauseThrows now s)))
           = filter is_delete (trace s) @ [Storage_deleteFile (filePath task), Storage_deleteMetadata tid]"
proof -
  from cancel_before_processQueue [OF assms, of pauseThrows now]
  obtain s8 where c: "cancel tid pauseThrows now s = (None, processQueue now s8)"
    and g: "getTask s8 tid = None"
    and q: "tid \<notin> queue_ids (mqueue s8)"
    and d: "filter is_delete (trace s8)
           = filter is_delete (trace s) @ [Storage_deleteFile (filePath task), Storage_deleteMetadata tid]"
    by blast
  obtain ext where ext: "trace (processQueue now s8) = trace s8 @ ext" "\<forall>e \<in> set ext. start_effect e"
    using processQueue_trace by blast
  have "getTask (processQueue now s8) tid = None"
    using g by (rule processQueue_getTask_None)
  moreover have "tid \<notin> queue_ids (mqueue (processQueue now s8))"
    using q by (rule processQueue_queue_ids)
  then have "tid \<notin> set (getQueuedTaskIds (mqueue (processQueue now s8)))"
    and "\<not> isActive tid (mqueue (processQueue now s8))"
    by (auto simp: queue_ids_def getQueuedTaskIds_def isActive_def)
  moreover have "filter is_delete (trace (processQueue now s8))
           = filter is_delete (trace s) @ [Storage_deleteFile (filePath task), Storage_deleteMetadata tid]"
    using ext d by (simp add: filter_quiet)
  ultimately show ?thesis using c by simp
qed

text \<open>
  The run of the pieces of \<open>cancel\<close> one after the other is \<open>cancel\<close>.
\<close>

lemma cancel_run:
  "snd (cancel tid pauseThrows now s) =
     (case cancel_begin tid s of
        (Cancel_not_found, s') \<Rightarrow> s'
      | (Cancel_awaits_pause path, s') \<Rightarrow>
          run [Ev_cancel_pause_settled tid path pauseThrows, Ev_cancel_file_deleted tid,
               Ev_cancel_metadata_deleted tid, Ev_persisted now] s'
      | (Cancel_awaits_deleteFile, s') \<Rightarrow>
          run [Ev_cancel_file_deleted tid, Ev_cancel_metadata_deleted tid, Ev_persisted now] s')"
  by (simp add: cancel_def split: prod.splits cancel_start.splits)


section \<open>Properties of initialisation and of the network handlers\<close>

lemma getTask_register:
  "getTask (register tid task s) k = (if k = tid then Some task else getTask s k)"
  by (simp add: register_def getTask_def update_conv')

lemma register_fields [simp]:
  "downloads (register tid task s) = downloads s"
  "mqueue (register tid task s) = mqueue s"
  "network (register tid task s) = network s"
  "config (register tid task s) = config s"
  "isInitialized (register tid task s) = isInitialized s"
  "trace (register tid task s) = trace s"
  by (simp_all add: register_def)

lemma getTask_load_task:
  "getTask (load_task s task) k =
     (if k = task_id task
      then Some (if status task = DOWNLOADING then task\<lparr>status := PAUSED\<rparr> else task)
      else getTask s k)"
  by (simp add: load_task_def Let_def getTask_register)

lemma load_task_fields [simp]:
  "isInitialized (load_task s task) = isInitialized s"
  "network (load_task s task) = network s"
  "trace (load_task s task) = trace s"
  by (simp_all add: load_task_def Let_def)

lemma foldl_load_task_fields [simp]:
  "isInitialized (foldl load_task s saved) = isInitialized s"
  "network (foldl load_task s saved) = network s"
  by (induction saved arbitrary: s) simp_all

text \<open>A task loaded earlier stays non-active whatever is loaded after it.\<close>

lemma load_keeps_not_downloading:
  assumes "\<exists>t'. getTask s k = Some t' \<and> status t' \<noteq> DOWNLOADING"
  shows "\<exists>t'. getTask (foldl load_task s saved) k = Some t' \<and> status t' \<noteq> DOWNLOADING"
  using assms
proof (induction saved arbitrary: s)
  case Nil
  then show ?case by simp
next
  case (Cons a saved)
  have "\<exists>t'. getTask (load_task s a) k = Some t' \<and> status t' \<noteq> DOWNLOADING"
    using Cons.prems by (auto simp: getTask_load_task)
  from Cons.IH [OF this] show ?case by simp
qed

lemma loaded_not_downloading:
  "task \<in> set saved \<Longrightarrow>
   \<exists>t'. getTask (foldl load_task s saved) (task_id task) = Some t' \<and> status t' \<noteq> DOWNLOADING"
proof (induction saved arbitrary: s)
  case Nil
  then show ?case by simp
next
  case (Cons a saved)
  show ?case
  proof (cases "task \<in> set saved")
    case True
    from Cons.IH [OF this] show ?thesis by simp
  next
    case False
    with Cons.prems have "a = task" by simp
    then have "\<exists>t'. getTask (load_task s a) (task_id task) = Some t' \<and> status t' \<noteq> DOWNLOADING"
      by (auto simp: getTask_load_task)
    then show ?thesis using load_keeps_not_downloading by simp
  qed
qed

lemma load_keeps_other_ids:
  "task_id task \<notin> task_id ` set saved \<Longrightarrow>
   getTask (foldl load_task s saved) (task_id task) = getTask s (task_id task)"
  by (induction saved arbitrary: s) (auto simp: getTask_load_task)

lemma loaded_unchanged:
  "distinct (map task_id saved) \<Longrightarrow> task \<in> set saved \<Longrightarrow>
   getTask (foldl load_task s saved) (task_id task)
     = Some (if status task = DOWNLOADING then task\<lparr>status := PAUSED\<rparr> else task)"
proof (induction saved arbitrary: s)
  case Nil
  then show ?case by simp
next
  case (Cons a saved)
  show ?case
  proof (cases "task = a")
    case True
    with Cons.prems have "task_id task \<notin> task_id ` set saved" by auto
    then have "getTask (foldl load_task (load_task s a) saved) (task_id task)
        = getTask (load_task s a) (task_id task)"
      by (rule load_keeps_other_ids)
    with True show ?thesis by (simp add: getTask_load_task)
  next
    case False
    with Cons.prems have "distinct (map task_id saved)" "task \<in> set saved" by auto
    from Cons.IH [OF this] show ?thesis by simp
  qed
qed

lemma checkNetworkState_uninitialized:
  "\<not> isInitialized s \<Longrightarrow> tasks (checkNetworkState p now s) = tasks s"
  by (auto simp: checkNetworkState_def Let_def split: probe.splits)

text \<open>
  While the manager is not initialised, a probe changes the monitor and emits its
  signals, and nothing else: no handler runs.
\<close>

lemma checkNetworkState_uninitialized_invokes:
  "\<not> isInitialized s \<Longrightarrow>
   filter is_invoke (trace (checkNetworkState p now s)) = filter is_invoke (trace s)"
  by (auto simp: checkNetworkState_def Let_def split: probe.splits)

lemma startMonitoring_uninitialized:
  "\<not> isInitialized s \<Longrightarrow> tasks (startMonitoring p now s) = tasks s"
  by (simp add: startMonitoring_def Let_def checkNetworkState_uninitialized)

lemma initialize_tasks:
  "\<not> isInitialized s \<Longrightarrow>
   getTask (snd (initialize True saved p now s)) k
     = getTask (foldl load_task (perform Storage_loadTasks (perform Storage_initialize s)) saved) k"
  by (simp add: initialize_def Let_def getTask_def startMonitoring_uninitialized)

lemma resume_invokes:
  "filter is_invoke (trace (snd (resume tid now s)))
     = filter is_invoke (trace s) @ [Invoke_resume tid]"
proof -
  obtain r s' where r: "resume tid now s = (r, s')" by (cases "resume tid now s")
  let ?s0 = "perform (Invoke_resume tid) s"
  have "filter is_invoke (trace s') = filter is_invoke (trace s) @ [Invoke_resume tid]"
  proof (cases "\<exists>s3. s' = processQueue now s3
        \<and> filter is_invoke (trace s3) = filter is_invoke (trace s) @ [Invoke_resume tid]")
    case True
    then obtain s3 where s3: "s' = processQueue now s3"
      "filter is_invoke (trace s3) = filter is_invoke (trace s) @ [Invoke_resume tid]" by blast
    obtain ext where "trace (processQueue now s3) = trace s3 @ ext" "\<forall>e \<in> set ext. start_effect e"
      using processQueue_trace by blast
    with s3 show ?thesis by (simp add: filter_quiet)
  next
    case False
    have "s' = ?s0 \<or> (\<exists>s3. s' = processQueue now s3
        \<and> filter is_invoke (trace s3) = filter is_invoke (trace s) @ [Invoke_resume tid])"
      using r
      by (auto simp: resume_def Let_def trace_updateTaskStatus getTask_update_task
            split: option.splits if_splits)
    with False have "s' = ?s0" by blast
    then show ?thesis by simp
  qed
  with r show ?thesis by simp
qed

lemma pause_begin_invokes:
  "filter is_invoke (trace (snd (pause_begin tid s)))
     = filter is_invoke (trace s) @ [Invoke_pause tid]"
  by (simp add: pause_begin_def Let_def split: option.splits)

lemma foldl_invokes:
  assumes "\<And>s x. filter is_invoke (trace (f s x)) = filter is_invoke (trace s) @ [g x]"
  shows "filter is_invoke (trace (foldl f (s::DownloadManager) xs))
      = filter is_invoke (trace s) @ map g xs"
  by (induction xs arbitrary: s) (simp_all add: assms)

lemma handleNetworkOffline_invokes:
  "filter is_invoke (trace (handleNetworkOffline s))
     = filter is_invoke (trace s)
        @ map (\<lambda>task. Invoke_pause (task_id task))
            (filter (\<lambda>task. status task = DOWNLOADING) (getAllTasks s))"
proof -
  let ?f = "\<lambda>s' task.
              case pause_begin (task_id task) s' of
                (Pause_not_found, s'') \<Rightarrow>
                  perform (Console_error ''Failed to pause on network loss:'') s''
              | (r, s'') \<Rightarrow> s''"
  have step: "filter is_invoke (trace (?f s' x)) = filter is_invoke (trace s') @ [Invoke_pause (task_id x)]"
    for s' :: DownloadManager and x :: DownloadTask
    using pause_begin_invokes [of "task_id x" s']
    by (cases "pause_begin (task_id x) s'") (auto split: pause_start.splits)
  show ?thesis
    unfolding handleNetworkOffline_def getActiveDownloads_def
    by (rule foldl_invokes) (rule step)
qed

lemma handleNetworkOnline_invokes:
  "filter is_invoke (trace (handleNetworkOnline now s))
     = filter is_invoke (trace s)
        @ (if autoRetryOnNetworkRestore (config s)
           then map (\<lambda>task. Invoke_resume (task_id task))
                  (filter (\<lambda>task. status task = FAILED \<and>
                     (case error task of None \<Rightarrow> False | Some e \<Rightarrow> code e = NETWORK_ERROR))
                     (getAllTasks s))
           else [])"
proof (cases "autoRetryOnNetworkRestore (config s)")
  case False
  then show ?thesis by (simp add: handleNetworkOnline_def)
next
  case True
  let ?f = "\<lambda>s' task.
                 case resume (task_id task) now s' of
                   (Some err, s'') \<Rightarrow> perform (Console_error ''Failed to auto-resume:'') s''
                 | (None, s'') \<Rightarrow> s''"
  have step: "filter is_invoke (trace (?f s' x)) = filter is_invoke (trace s') @ [Invoke_resume (task_id x)]"
    for s' :: DownloadManager and x :: DownloadTask
    using resume_invokes [of "task_id x" now s']
    by (cases "resume (task_id x) now s'") (auto split: option.splits)
  have "filter is_invoke (trace (foldl ?f s (filter (\<lambda>task. status task = FAILED \<and>
                     (case error task of None \<Rightarrow> False | Some e \<Rightarrow> code e = NETWORK_ERROR))
                     (getAllTasks s))))
     = filter is_invoke (trace s)
        @ map (\<lambda>task. Invoke_resume (task_id task))
                  (filter (\<lambda>task. status task = FAILED \<and>
                     (case error task of None \<Rightarrow> False | Some e \<Rightarrow> code e = NETWORK_ERROR))
                     (getAllTasks s))"
    by (rule foldl_invokes) (rule step)
  with True show ?thesis by (simp add: handleNetworkOnline_def)
qed

lemma st_initialized_eq:
  "st_initialized =
    \<lparr>tasks = [(''t2'', 0, failed_tasks ! 0), (''t3'', 1, failed_tasks ! 1)],
     allocated = 2,
     downloads = [],
     mqueue = \<lparr>queue = [], activeDownloads = [], maxConcurrent = 3\<rparr>,
     network = \<lparr>currentState = ONLINE, checkInterval = True, isMonitoring = True\<rparr>,
     config = DEFAULT_CONFIG, isInitialized = True,
     trace = [Storage_initialize, Storage_loadTasks, Emit_network_state_change ONLINE UNKNOWN,
              Emit_online]\<rparr>"
  unfolding st_initialized_def
  by (simp add: eval_defs initialize_def load_task_def startMonitoring_def checkNetworkState_def
        new_NetworkMonitor_def failed_tasks_def task1_def)

lemma st_network_eq:
  "st_network =
    \<lparr>tasks = [(''t2'', 0, failed_tasks ! 0), (''t3'', 1, failed_tasks ! 1),
              (''t1'', 2, task1\<lparr>status := DOWNLOADING, startedAt := Some 1\<rparr>)],
     allocated = 3,
     downloads = [''t1''],
     mqueue = \<lparr>queue = [], activeDownloads = [''t1''], maxConcurrent = 3\<rparr>,
     network = \<lparr>currentState = UNKNOWN, checkInterval = True, isMonitoring = True\<rparr>,
     config = DEFAULT_CONFIG, isInitialized = True,
     trace = [Storage_initialize, Storage_loadTasks, Emit_network_state_change ONLINE UNKNOWN,
              Emit_online, Storage_saveMetadata task1,
              Emit_status_change ''t1'' PENDING DOWNLOADING,
              Transfer_create ''t1'', Transfer_downloadAsync ''t1'',
              Console_error ''Network check failed:'']\<rparr>"
  unfolding st_network_def
  by (simp add: eval_defs initialize_def load_task_def startMonitoring_def checkNetworkState_def
        new_NetworkMonitor_def failed_tasks_def env1_def no_options_def task1_def
        processQueue_admit processQueue_empty)


section \<open>Claims about initialisation and the network\<close>

text \<open>
  C5. When a manager that is not yet initialised runs \<open>initialize\<close> (and the storage
  directory can be set up), every task of the persisted snapshot is in the registry
  afterwards in a state other than \<open>Downloading\<close>; for a snapshot with distinct ids,
  a task persisted as \<open>Downloading\<close> is in the registry as \<open>Paused\<close> with its other
  fields as persisted, and a task persisted in any other state is in the registry
  unchanged.
\<close>

theorem initialize_resets_active_tasks:
  assumes "\<not> isInitialized s"
  shows "fst (initialize True saved p now s) = None
     \<and> (\<forall>task \<in> set saved.
           \<exists>t'. getTask (snd (initialize True saved p now s)) (task_id task) = Some t'
                \<and> status t' \<noteq> DOWNLOADING)
     \<and> (distinct (map task_id saved) \<longrightarrow>
          (\<forall>task \<in> set saved.
             getTask (snd (initialize True saved p now s)) (task_id task)
               = Some (if status task = DOWNLOADING then task\<lparr>status := PAUSED\<rparr> else task)))"
  using assms
  by (simp add: initialize_tasks loaded_not_downloading loaded_unchanged)
     (simp add: initialize_def Let_def)

theorem initialize_resets_active_tasks_witness:
  "\<not> isInitialized (new_DownloadManager DEFAULT_CONFIG)
   \<and> distinct (map task_id saved_tasks)
   \<and> getTask (snd (initialize True saved_tasks (Probe True True) 0 (new_DownloadManager DEFAULT_CONFIG))) ''t1''
       = Some (task1\<lparr>status := PAUSED, progress := Num 40, totalBytes := 1000, downloadedBytes := 400\<rparr>)
   \<and> getTask (snd (initialize True saved_tasks (Probe True True) 0 (new_DownloadManager DEFAULT_CONFIG))) ''t2''
       = Some (task1\<lparr>task_id := ''t2'', status := COMPLETED, progress := Num 100\<rparr>)"
proof -
  have h: "\<not> isInitialized (new_DownloadManager DEFAULT_CONFIG)"
    by (simp add: new_DownloadManager_def)
  have d: "distinct (map task_id saved_tasks)"
    by (simp add: saved_tasks_def task1_def)
  from initialize_resets_active_tasks [OF h, of saved_tasks "Probe True True" 0] d
  have "\<forall>task \<in> set saved_tasks.
      getTask (snd (initialize True saved_tasks (Probe True True) 0 (new_DownloadManager DEFAULT_CONFIG)))
        (task_id task)
      = Some (if status task = DOWNLOADING then task\<lparr>status := PAUSED\<rparr> else task)"
    by blast
  then show ?thesis using h d by (simp add: saved_tasks_def task1_def)
qed

text \<open>
  C6, as amended. Once \<open>initialize\<close> has subscribed the manager's handlers: when a
  probe makes the monitor emit the offline signal, \<open>pause\<close> is entered once for
  each task that is \<open>Downloading\<close>, in registry order, and for no other id; when a
  probe makes it emit the online signal, \<open>resume\<close> is entered, if auto-retry is
  enabled, once for each \<open>Failed\<close> task whose error code is \<open>NETWORK_ERROR\<close> and
  for no other task (none with another error code), and for no task at all if
  auto-retry is disabled.
\<close>

theorem network_signals_pause_active_and_resume_network_failures:
  assumes "isInitialized s"
  shows "(currentState (network s) \<noteq> OFFLINE \<longrightarrow> \<not> (c \<and> r) \<longrightarrow>
            filter is_invoke (trace (checkNetworkState (Probe c r) now s))
              = filter is_invoke (trace s)
                 @ map (\<lambda>task. Invoke_pause (task_id task))
                     (filter (\<lambda>task. status task = DOWNLOADING) (getAllTasks s)))
       \<and> (currentState (network s) \<noteq> ONLINE \<longrightarrow>
            filter is_invoke (trace (checkNetworkState (Probe True True) now s))
              = filter is_invoke (trace s)
                 @ (if autoRetryOnNetworkRestore (config s)
                    then map (\<lambda>task. Invoke_resume (task_id task))
                           (filter (\<lambda>task. status task = FAILED \<and>
                              (case error task of None \<Rightarrow> False
                               | Some e \<Rightarrow> code e = NETWORK_ERROR))
                              (getAllTasks s))
                    else []))"
  using assms
  by (auto simp: checkNetworkState_def Let_def handleNetworkOffline_invokes
        handleNetworkOnline_invokes getAllTasks_def)

theorem network_signals_pause_active_and_resume_network_failures_witness:
  "isInitialized st_network
   \<and> currentState (network st_network) = UNKNOWN
   \<and> filter is_invoke (trace (checkNetworkState (Probe False True) 3 st_network))
        = [Invoke_pause ''t1'']
   \<and> filter is_invoke (trace (checkNetworkState (Probe True True) 3 st_network))
        = [Invoke_resume ''t2'']"
proof -
  have h: "isInitialized st_network"
    by (simp add: st_network_eq)
  have n: "currentState (network st_network) = UNKNOWN"
    by (simp add: st_network_eq)
  from network_signals_pause_active_and_resume_network_failures [OF h, of False True 3] h n
  show ?thesis
    by (simp add: st_network_eq getAllTasks_def failed_tasks_def task1_def DEFAULT_CONFIG_def
          NETWORK_ERROR_def INSUFFICIENT_STORAGE_def)
qed

text \<open>
  C6 as stated fails for the signal that the first probe emits: \<open>initialize\<close>
  awaits \<open>startMonitoring\<close> before it subscribes the handlers. After \<open>initialize\<close>
  has loaded a \<open>Failed\<close> task whose error code is \<open>NETWORK_ERROR\<close>, with auto-retry
  enabled and the network reachable, the online signal has been emitted and neither
  \<open>resume\<close> nor \<open>pause\<close> has been entered for any task; the task is still
  \<open>Failed\<close>.
\<close>

theorem online_signal_inside_initialize_counterexample:
  "trace st_initialized
     = [Storage_initialize, Storage_loadTasks, Emit_network_state_change ONLINE UNKNOWN, Emit_online]
   \<and> autoRetryOnNetworkRestore (config st_initialized)
   \<and> map_option (\<lambda>t. (status t, map_option code (error t))) (getTask st_initialized ''t2'')
       = Some (FAILED, Some NETWORK_ERROR)
   \<and> filter is_invoke (trace st_initialized) = []"
  by (simp add: st_initialized_eq getTask_def failed_tasks_def task1_def DEFAULT_CONFIG_def)


section \<open>Properties of progress callbacks and submissions\<close>

subsection \<open>Rounding to doubles\<close>

lemma exponent_up_numeral:
  "exponent_up (numeral k) x = (if x < 2 then 0 else 1 + exponent_up (pred_numeral k) (x / 2))"
  by (simp add: numeral_eq_Suc)

lemma exponent_down_numeral:
  "exponent_down (numeral k) x = (if 1 \<le> x then 0 else exponent_down (pred_numeral k) (x * 2) - 1)"
  by (simp add: numeral_eq_Suc)

lemma round_half_even_nearest:
  assumes "of_int n - 1 / 2 < m" "m < of_int n + 1 / 2"
  shows "round_half_even m = n"
proof (cases "of_int n \<le> m")
  case True
  then have f: "\<lfloor>m\<rfloor> = n" using assms by (simp add: floor_eq_iff)
  then have "m - of_int \<lfloor>m\<rfloor> < 1 / 2" using assms by simp
  with f show ?thesis by (simp add: round_half_even_def Let_def)
next
  case False
  then have f: "\<lfloor>m\<rfloor> = n - 1" using assms by (simp add: floor_eq_iff)
  then have "1 / 2 < m - of_int \<lfloor>m\<rfloor>" using assms by simp
  with f show ?thesis by (simp add: round_half_even_def Let_def)
qed

text \<open>
  A positive normal value, of exponent \<open>e\<close>, rounds to the multiple \<open>n\<close> of
  \<open>2^(e-52)\<close> that is less than half a step away.
\<close>

lemma to_double_nearest:
  assumes "0 < x" "exponent x = e" "- 1022 \<le> e"
    and "of_int n - 1 / 2 < x / pow2 (e - 52)" "x / pow2 (e - 52) < of_int n + 1 / 2"
    and "of_int n * pow2 (e - 52) < pow2 1024"
  shows "to_double x = Num (of_int n * pow2 (e - 52))"
proof -
  have "round_half_even (x / pow2 (e - 52)) = n"
    using assms(4,5) by (rule round_half_even_nearest)
  then show ?thesis
    using assms(1,2,3,6) by (simp add: to_double_def Let_def)
qed

text \<open>
  \<open>400 / 1000\<close> is the double \<open>0.4000000000000000222\<close>, whose product with 100
  rounds to the double 40. \<open>23 / 40\<close> is the double \<open>0.5749999999999999556\<close>, whose
  product with 100 rounds to the double \<open>57.49999999999999289\<close>: the percentage of
  23 bytes of 40 is 57, where exact arithmetic would round \<open>57.5\<close> to 58.
\<close>

lemma double_400_of_1000: "js_div 400 1000 = Num (3602879701896397 / 9007199254740992)"
proof -
  have e: "exponent (2 / 5) = - 2"
    by (simp add: exponent_def exponent_down_numeral)
  have "to_double (2 / 5) = Num (of_int 7205759403792794 * pow2 (- 2 - 52))"
    by (rule to_double_nearest [OF _ e]) (simp_all add: pow2_def)
  then show ?thesis by (simp add: js_div_def pow2_def)
qed

lemma double_400_of_1000_times_100:
  "js_times (Num (3602879701896397 / 9007199254740992)) 100 = Num 40"
proof -
  have e: "exponent (3602879701896397 / 9007199254740992 * 100) = 5"
    by (simp add: exponent_def exponent_up_numeral)
  have "to_double (3602879701896397 / 9007199254740992 * 100)
      = Num (of_int 5629499534213120 * pow2 (5 - 52))"
    by (rule to_double_nearest [OF _ e]) (simp_all add: pow2_def)
  then show ?thesis by (simp add: pow2_def)
qed

lemma double_23_of_40: "js_div 23 40 = Num (2589569785738035 / 4503599627370496)"
proof -
  have e: "exponent (23 / 40) = - 1"
    by (simp add: exponent_def exponent_down_numeral)
  have "to_double (23 / 40) = Num (of_int 5179139571476070 * pow2 (- 1 - 52))"
    by (rule to_double_nearest [OF _ e]) (simp_all add: pow2_def)
  then show ?thesis by (simp add: js_div_def pow2_def)
qed

lemma double_23_of_40_times_100:
  "js_times (Num (2589569785738035 / 4503599627370496)) 100
     = Num (8092405580431359 / 140737488355328)"
proof -
  have e: "exponent (2589569785738035 / 4503599627370496 * 100) = 5"
    by (simp add: exponent_def exponent_up_numeral)
  have "to_double (2589569785738035 / 4503599627370496 * 100)
      = Num (of_int 8092405580431359 * pow2 (5 - 52))"
    by (rule to_double_nearest [OF _ e]) (simp_all add: pow2_def)
  then show ?thesis by (simp add: pow2_def)
qed

lemma percentage_23_of_40: "Math_round (js_times (js_div 23 40) 100) = Num 57"
  unfolding double_23_of_40 double_23_of_40_times_100 by (simp add: floor_eq_iff)

subsection \<open>Progress callbacks\<close>

lemma getTask_handleProgress:
  "getTask (handleProgress tid written expected s) tid =
     map_option (\<lambda>t. t\<lparr>totalBytes := expected, downloadedBytes := written,
                       progress := Math_round (js_times (js_div written expected) 100)\<rparr>)
       (getTask s tid)"
  by (simp add: handleProgress_def getTask_update_task split: option.splits)

text \<open>
  With a total other than 0 the stored progress is the quotient of the byte counts,
  rounded to a double, times 100, rounded to a double, rounded to an integer.
\<close>

lemma handleProgress_known_total:
  "expected \<noteq> 0 \<Longrightarrow>
   map_option progress (getTask (handleProgress tid written expected s) tid) =
     map_option
       (\<lambda>t. Math_round (js_times (to_double (of_int written / of_int expected)) 100))
       (getTask s tid)"
  by (simp add: getTask_handleProgress js_div_def option.map_comp comp_def)

lemma handleProgress_23_of_40:
  "map_option progress (getTask (handleProgress ''t1'' 23 40 st_downloading) ''t1'')
     = Some (Num 57)"
proof -
  have g: "getTask st_downloading ''t1'' = Some (task1\<lparr>status := DOWNLOADING, startedAt := Some 1\<rparr>)"
    by (simp add: st_downloading_eq getTask_def)
  show ?thesis
    by (simp add: getTask_handleProgress g percentage_23_of_40)
qed

subsection \<open>Submissions\<close>

lemma download_busy:
  assumes "validateUrl (parsed_protocol env)"
    and "\<not> hasCapacity (mqueue s)"
  shows "mqueue (snd (download u options env s))
      = add (new_id env) (priority_of options) (clock env) (mqueue s)"
  using assms
  by (simp add: download_def download_begin_def download_saved_def Let_def priority_of_def
      processQueue_no_capacity hasCapacity_def)

lemma processQueue_single:
  assumes "queue (mqueue s) = [item]" "activeDownloads (mqueue s) = []" "maxConcurrent (mqueue s) = 1"
  shows "mqueue (processQueue now s) = (mqueue s)\<lparr>queue := [], activeDownloads := [taskId item]\<rparr>"
proof (cases "taskId item = []")
  case True
  with assms show ?thesis
    by (subst processQueue.simps)
       (simp add: hasCapacity_def set_size_def getNext_def set_add_def)
next
  case False
  let ?q' = "(mqueue s)\<lparr>queue := [], activeDownloads := set_add (taskId item) (activeDownloads (mqueue s))\<rparr>"
  have "processQueue now s = processQueue now (startDownload (taskId item) now (s\<lparr>mqueue := ?q'\<rparr>))"
    using assms False by (intro processQueue_admit) (simp_all add: hasCapacity_def set_size_def)
  also have "\<dots> = startDownload (taskId item) now (s\<lparr>mqueue := ?q'\<rparr>)"
    using assms by (intro processQueue_no_capacity) (simp add: hasCapacity_def set_size_def set_add_def)
  finally show ?thesis using assms by (simp add: set_add_def)
qed

lemma download_idle:
  assumes "validateUrl (parsed_protocol env)"
    and "queue (mqueue s) = []" "activeDownloads (mqueue s) = []" "maxConcurrent (mqueue s) = 1"
  shows "mqueue (snd (download u options env s))
      = (mqueue s)\<lparr>activeDownloads := [new_id env]\<rparr>"
proof -
  let ?item = "\<lparr>taskId = new_id env, priority = priority_of options, addedAt = clock env\<rparr>"
  have a: "add (new_id env) (priority_of options) (clock env) (mqueue s)
      = (mqueue s)\<lparr>queue := [?item]\<rparr>"
    using assms by (simp add: add_def Let_def)
  obtain s3 where s3: "snd (download u options env s) = processQueue (clock env) s3"
    "mqueue s3 = add (new_id env) (priority_of options) (clock env) (mqueue s)"
    using assms(1)
    by (simp add: download_def download_begin_def download_saved_def Let_def priority_of_def)
  have "mqueue (processQueue (clock env) s3) = (mqueue s3)\<lparr>queue := [], activeDownloads := [taskId ?item]\<rparr>"
    using assms s3(2) a by (intro processQueue_single) simp_all
  with s3 a assms show ?thesis by simp
qed

lemma processQueue_first:
  assumes "queue (mqueue s) = item # rest" "activeDownloads (mqueue s) = []"
    "maxConcurrent (mqueue s) = 1"
  shows "mqueue (processQueue now s)
      = (mqueue s)\<lparr>queue := rest, activeDownloads := [taskId item]\<rparr>"
proof (cases "taskId item = []")
  case True
  with assms show ?thesis
    by (subst processQueue.simps)
       (simp add: hasCapacity_def set_size_def getNext_def set_add_def)
next
  case False
  let ?q' = "(mqueue s)\<lparr>queue := rest,
      activeDownloads := set_add (taskId item) (activeDownloads (mqueue s))\<rparr>"
  have "processQueue now s = processQueue now (startDownload (taskId item) now (s\<lparr>mqueue := ?q'\<rparr>))"
    using assms False by (intro processQueue_admit) (simp_all add: hasCapacity_def set_size_def)
  also have "\<dots> = startDownload (taskId item) now (s\<lparr>mqueue := ?q'\<rparr>)"
    using assms by (intro processQueue_no_capacity) (simp add: hasCapacity_def set_size_def set_add_def)
  finally show ?thesis using assms by (simp add: set_add_def)
qed

lemma downloadSettled_releases_slot:
  assumes "queue (mqueue s) = item # rest" "activeDownloads (mqueue s) = [c]"
    "maxConcurrent (mqueue s) = 1"
  shows "activeDownloads (mqueue (downloadSettled c obj Download_result now s)) = [taskId item]"
proof -
  obtain s6 where s6: "downloadSettled c obj Download_result now s = processQueue now s6"
    "mqueue s6 = complete_q c (mqueue s)"
    by (simp add: downloadSettled_def transferCompleted_def Let_def)
  have "mqueue (processQueue now s6)
      = (mqueue s6)\<lparr>queue := rest, activeDownloads := [taskId item]\<rparr>"
    using assms s6(2) by (intro processQueue_first) (simp_all add: complete_q_def set_delete_def)
  with s6 show ?thesis by simp
qed

lemma submit_two_idle:
  assumes "validateUrl (parsed_protocol e1)" "validateUrl (parsed_protocol e2)"
    and "queue (mqueue s) = []" "activeDownloads (mqueue s) = []" "maxConcurrent (mqueue s) = 1"
  shows "mqueue (submit_two u1 o1 e1 u2 o2 e2 s)
      = (mqueue s)\<lparr>queue := [\<lparr>taskId = new_id e2, priority = priority_of o2, addedAt = clock e2\<rparr>],
                    activeDownloads := [new_id e1]\<rparr>"
proof -
  let ?s1 = "snd (download u1 o1 e1 s)"
  have m1: "mqueue ?s1 = (mqueue s)\<lparr>activeDownloads := [new_id e1]\<rparr>"
    using assms by (intro download_idle) simp_all
  then have "\<not> hasCapacity (mqueue ?s1)"
    using assms by (simp add: hasCapacity_def set_size_def)
  with assms(2) have "mqueue (snd (download u2 o2 e2 ?s1))
      = add (new_id e2) (priority_of o2) (clock e2) (mqueue ?s1)"
    by (rule download_busy)
  with m1 assms show ?thesis
    by (simp add: submit_two_def add_def Let_def)
qed

lemma submit_two_busy:
  assumes "validateUrl (parsed_protocol e1)" "validateUrl (parsed_protocol e2)"
    and "\<not> hasCapacity (mqueue s)"
  shows "mqueue (submit_two u1 o1 e1 u2 o2 e2 s)
      = add (new_id e2) (priority_of o2) (clock e2)
          (add (new_id e1) (priority_of o1) (clock e1) (mqueue s))"
proof -
  let ?s1 = "snd (download u1 o1 e1 s)"
  have m1: "mqueue ?s1 = add (new_id e1) (priority_of o1) (clock e1) (mqueue s)"
    using assms(1,3) by (rule download_busy)
  then have "\<not> hasCapacity (mqueue ?s1)"
    using assms(3) by (simp add: hasCapacity_def)
  with assms(2) have "mqueue (snd (download u2 o2 e2 ?s1))
      = add (new_id e2) (priority_of o2) (clock e2) (mqueue ?s1)"
    by (rule download_busy)
  with m1 show ?thesis by (simp add: submit_two_def)
qed


section \<open>Claims about progress and admission order\<close>

text \<open>
  C7. On a progress callback that reports a total of 0 bytes, \<open>handleProgress\<close> divides
  by that total: a task whose progress was 40 gets the progress \<open>Infinity\<close> when 500
  bytes are reported as written, and a first callback reporting 0 of 0 bytes gives
  \<open>NaN\<close>. The prior value is not kept.
\<close>

theorem handleProgress_zero_total_overwrites_progress:
  "map_option progress (getTask (handleProgress ''t1'' 400 1000 st_downloading) ''t1'')
     = Some (Num 40)
   \<and> map_option progress
        (getTask (handleProgress ''t1'' 500 0 (handleProgress ''t1'' 400 1000 st_downloading)) ''t1'')
     = Some PosInfinity
   \<and> map_option progress (getTask (handleProgress ''t1'' 0 0 st_downloading) ''t1'') = Some NaN"
proof -
  have g: "getTask st_downloading ''t1'' = Some (task1\<lparr>status := DOWNLOADING, startedAt := Some 1\<rparr>)"
    by (simp add: st_downloading_eq getTask_def)
  have p1: "Math_round (js_times (js_div 400 1000) 100) = Num 40"
    unfolding double_400_of_1000 double_400_of_1000_times_100 by (simp add: floor_eq_iff)
  have p2: "Math_round (js_times (js_div 500 0) 100) = PosInfinity"
    by (simp add: js_div_def)
  have p3: "Math_round (js_times (js_div 0 0) 100) = NaN"
    by (simp add: js_div_def)
  show ?thesis
    by (simp add: getTask_handleProgress g p1 p2 p3)
qed

text \<open>
  C9, as amended. With the concurrency limit 1 and two valid submissions, one of
  priority 0 and one of priority 5: when the slot is free, the one submitted first is
  admitted at once and the other waits, whichever order they come in; when the slot
  is taken, both wait, the priority-5 one ahead of the priority-0 one in either
  order of submission, and it is the priority-5 one that is admitted when the running
  transfer completes.
\<close>

theorem first_submission_admitted_unless_both_wait:
  assumes v: "validateUrl (parsed_protocol e0)" "validateUrl (parsed_protocol e5)"
    and p: "priority_of o0 = 0" "priority_of o5 = 5"
  shows "(queue (mqueue s) = [] \<and> activeDownloads (mqueue s) = [] \<and> maxConcurrent (mqueue s) = 1 \<longrightarrow>
            activeDownloads (mqueue (submit_two u0 o0 e0 u5 o5 e5 s)) = [new_id e0]
          \<and> getQueuedTaskIds (mqueue (submit_two u0 o0 e0 u5 o5 e5 s)) = [new_id e5]
          \<and> activeDownloads (mqueue (submit_two u5 o5 e5 u0 o0 e0 s)) = [new_id e5]
          \<and> getQueuedTaskIds (mqueue (submit_two u5 o5 e5 u0 o0 e0 s)) = [new_id e0])
       \<and> (queue (mqueue b) = [] \<and> activeDownloads (mqueue b) = [c] \<and> maxConcurrent (mqueue b) = 1 \<longrightarrow>
            getQueuedTaskIds (mqueue (submit_two u0 o0 e0 u5 o5 e5 b)) = [new_id e5, new_id e0]
          \<and> getQueuedTaskIds (mqueue (submit_two u5 o5 e5 u0 o0 e0 b)) = [new_id e5, new_id e0]
          \<and> activeDownloads (mqueue (downloadSettled c obj Download_result now
                 (submit_two u0 o0 e0 u5 o5 e5 b))) = [new_id e5]
          \<and> activeDownloads (mqueue (downloadSettled c obj Download_result now
                 (submit_two u5 o5 e5 u0 o0 e0 b))) = [new_id e5])"
proof (intro conjI impI)
  assume idle: "queue (mqueue s) = [] \<and> activeDownloads (mqueue s) = [] \<and> maxConcurrent (mqueue s) = 1"
  show "activeDownloads (mqueue (submit_two u0 o0 e0 u5 o5 e5 s)) = [new_id e0]"
    and "getQueuedTaskIds (mqueue (submit_two u0 o0 e0 u5 o5 e5 s)) = [new_id e5]"
    using v idle by (simp_all add: submit_two_idle getQueuedTaskIds_def)
  show "activeDownloads (mqueue (submit_two u5 o5 e5 u0 o0 e0 s)) = [new_id e5]"
    and "getQueuedTaskIds (mqueue (submit_two u5 o5 e5 u0 o0 e0 s)) = [new_id e0]"
    using v idle by (simp_all add: submit_two_idle getQueuedTaskIds_def)
next
  assume busy: "queue (mqueue b) = [] \<and> activeDownloads (mqueue b) = [c] \<and> maxConcurrent (mqueue b) = 1"
  then have nc: "\<not> hasCapacity (mqueue b)"
    by (simp add: hasCapacity_def set_size_def)
  let ?i0 = "\<lparr>taskId = new_id e0, priority = 0, addedAt = clock e0\<rparr>"
  let ?i5 = "\<lparr>taskId = new_id e5, priority = 5, addedAt = clock e5\<rparr>"
  have m05: "mqueue (submit_two u0 o0 e0 u5 o5 e5 b) = (mqueue b)\<lparr>queue := [?i5, ?i0]\<rparr>"
    using v p nc busy by (simp add: submit_two_busy add_def Let_def splice_insert_def)
  have m50: "mqueue (submit_two u5 o5 e5 u0 o0 e0 b) = (mqueue b)\<lparr>queue := [?i5, ?i0]\<rparr>"
    using v p nc busy by (simp add: submit_two_busy add_def Let_def splice_insert_def)
  show "getQueuedTaskIds (mqueue (submit_two u0 o0 e0 u5 o5 e5 b)) = [new_id e5, new_id e0]"
    and "getQueuedTaskIds (mqueue (submit_two u5 o5 e5 u0 o0 e0 b)) = [new_id e5, new_id e0]"
    by (simp_all add: m05 m50 getQueuedTaskIds_def)
  have "activeDownloads (mqueue (downloadSettled c obj Download_result now
          (submit_two u0 o0 e0 u5 o5 e5 b))) = [taskId ?i5]"
    using busy by (intro downloadSettled_releases_slot [where rest = "[?i0]"]) (simp_all add: m05)
  then show "activeDownloads (mqueue (downloadSettled c obj Download_result now
          (submit_two u0 o0 e0 u5 o5 e5 b))) = [new_id e5]" by simp
  have "activeDownloads (mqueue (downloadSettled c obj Download_result now
          (submit_two u5 o5 e5 u0 o0 e0 b))) = [taskId ?i5]"
    using busy by (intro downloadSettled_releases_slot [where rest = "[?i0]"]) (simp_all add: m50)
  then show "activeDownloads (mqueue (downloadSettled c obj Download_result now
          (submit_two u5 o5 e5 u0 o0 e0 b))) = [new_id e5]" by simp
qed

theorem first_submission_admitted_unless_both_wait_witness:
  "validateUrl (parsed_protocol (env_of ''c'' 3)) \<and> validateUrl (parsed_protocol (env_of ''d'' 4))
   \<and> priority_of options0 = 0 \<and> priority_of options5 = 5
   \<and> queue (mqueue (new_DownloadManager config1)) = []
   \<and> activeDownloads (mqueue (new_DownloadManager config1)) = []
   \<and> maxConcurrent (mqueue (new_DownloadManager config1)) = 1
   \<and> activeDownloads (mqueue (submit_two ''https://x/c.mp4'' options0 (env_of ''c'' 3)
          ''https://x/d.mp4'' options5 (env_of ''d'' 4) (new_DownloadManager config1))) = [''c'']
   \<and> activeDownloads (mqueue (submit_two ''https://x/d.mp4'' options5 (env_of ''d'' 4)
          ''https://x/c.mp4'' options0 (env_of ''c'' 3) (new_DownloadManager config1))) = [''d'']
   \<and> queue (mqueue st_one_running) = []
   \<and> activeDownloads (mqueue st_one_running) = [''a'']
   \<and> maxConcurrent (mqueue st_one_running) = 1
   \<and> getQueuedTaskIds (mqueue (submit_two ''https://x/c.mp4'' options0 (env_of ''c'' 3)
          ''https://x/d.mp4'' options5 (env_of ''d'' 4) st_one_running)) = [''d'', ''c'']
   \<and> activeDownloads (mqueue (downloadSettled ''a'' 0 Download_result 9
          (submit_two ''https://x/c.mp4'' options0 (env_of ''c'' 3)
             ''https://x/d.mp4'' options5 (env_of ''d'' 4) st_one_running))) = [''d'']"
proof -
  have v: "validateUrl (parsed_protocol (env_of ''c'' 3))" "validateUrl (parsed_protocol (env_of ''d'' 4))"
    "validateUrl (parsed_protocol (env_of ''a'' 1))"
    by (simp_all add: env_of_def validateUrl_def)
  have p: "priority_of options0 = 0" "priority_of options5 = 5"
    by (simp_all add: priority_of_def options0_def options5_def)
  have i: "queue (mqueue (new_DownloadManager config1)) = []
      \<and> activeDownloads (mqueue (new_DownloadManager config1)) = []
      \<and> maxConcurrent (mqueue (new_DownloadManager config1)) = 1"
    by (simp add: new_DownloadManager_def new_DownloadQueue_def config1_def)
  have "mqueue st_one_running
      = (mqueue (new_DownloadManager config1))\<lparr>activeDownloads := [new_id (env_of ''a'' 1)]\<rparr>"
  proof -
    have "st_one_running = snd (download ''https://x/a.mp4'' options0 (env_of ''a'' 1)
        (new_DownloadManager config1))"
      using v(3) by (simp add: st_one_running_def download_def download_begin_def Let_def env_of_def)
    then have "mqueue st_one_running = mqueue (snd (download ''https://x/a.mp4'' options0
        (env_of ''a'' 1) (new_DownloadManager config1)))"
      by (simp only:)
    also have "\<dots> = (mqueue (new_DownloadManager config1))\<lparr>activeDownloads := [new_id (env_of ''a'' 1)]\<rparr>"
      using v(3) i by (intro download_idle) simp_all
    finally show ?thesis .
  qed
  then have b: "queue (mqueue st_one_running) = []
      \<and> activeDownloads (mqueue st_one_running) = [''a'']
      \<and> maxConcurrent (mqueue st_one_running) = 1"
    using i by (simp add: env_of_def)
  from first_submission_admitted_unless_both_wait [OF v(1,2) p,
      of "new_DownloadManager config1" "''https://x/c.mp4''" "''https://x/d.mp4''"
         st_one_running "''a''" 0 9]
    v p i b
  show ?thesis by (simp add: env_of_def)
qed

text \<open>
  C9 as stated fails: on a new manager with limit 1, a priority-0 submission followed
  by a priority-5 submission leaves the priority-0 task admitted and downloading and
  the priority-5 task pending.
\<close>

theorem priority_5_submitted_second_counterexample:
  "activeDownloads (mqueue st_low_first) = [''a'']
   \<and> getQueuedTaskIds (mqueue st_low_first) = [''b'']
   \<and> map_option status (getTask st_low_first ''a'') = Some DOWNLOADING
   \<and> map_option status (getTask st_low_first ''b'') = Some PENDING
   \<and> map_option priority (find (\<lambda>e. taskId e = ''b'') (queue (mqueue st_low_first))) = Some 5"
  unfolding st_low_first_def
  by (simp add: eval_defs config1_def options0_def options5_def env_of_def getQueuedTaskIds_def
        processQueue_admit processQueue_empty processQueue_no_capacity)


section \<open>The resume data along runs\<close>

lemma tcc_iff:
  "token_cleared_on_completion s \<longleftrightarrow>
     (\<forall>p \<in> set (tasks s). completed_without_token (snd (snd p)))"
  by (simp add: token_cleared_on_completion_def getAllTasks_def list_all_iff)

lemma tcc_cong: "tasks s' = tasks s \<Longrightarrow> token_cleared_on_completion s' = token_cleared_on_completion s"
  by (simp add: tcc_iff)

lemma set_map_entry:
  "p \<in> set (AList.map_entry k f xs) \<Longrightarrow> p \<in> set xs \<or> (\<exists>v. (k, v) \<in> set xs \<and> p = (k, f v))"
  by (induction xs) (auto split: if_splits)

lemma map_entry_twice:
  "AList.map_entry k g (AList.map_entry k f xs) = AList.map_entry k (\<lambda>v. g (f v)) xs"
  by (induction xs) auto

lemma set_alist_update: "set (AList.update k v xs) \<subseteq> insert (k, v) (set xs)"
  by (induction xs) auto

lemma set_alist_delete: "set (AList.delete k xs) \<subseteq> set xs"
  by (auto simp: AList.delete_eq)

lemma tcc_map_entry:
  assumes "\<And>e. completed_without_token (snd e) \<Longrightarrow> completed_without_token (snd (f e))"
    and "token_cleared_on_completion s"
    and "tasks s' = AList.map_entry k f (tasks s)"
  shows "token_cleared_on_completion s'"
  unfolding tcc_iff
proof
  fix p assume "p \<in> set (tasks s')"
  then have "p \<in> set (tasks s) \<or> (\<exists>v. (k, v) \<in> set (tasks s) \<and> p = (k, f v))"
    using assms(3) set_map_entry by metis
  then show "completed_without_token (snd (snd p))"
    using assms(1,2) by (auto simp: tcc_iff)
qed

lemma tcc_updateTaskStatus:
  "st \<noteq> COMPLETED \<Longrightarrow> token_cleared_on_completion s \<Longrightarrow>
   token_cleared_on_completion (updateTaskStatus tid st s)"
  by (rule tcc_map_entry [where f = "apsnd (\<lambda>t. t\<lparr>status := st\<rparr>)" and k = tid and s = s])
     (simp_all add: completed_without_token_def)

lemma tcc_update_task:
  "(\<And>t. completed_without_token t \<Longrightarrow> completed_without_token (f t)) \<Longrightarrow>
   token_cleared_on_completion s \<Longrightarrow> token_cleared_on_completion (update_task tid f s)"
  by (rule tcc_map_entry [where f = "apsnd f" and k = tid and s = s]) simp_all

lemma tcc_assign:
  "(\<And>t. completed_without_token t \<Longrightarrow> completed_without_token (f t)) \<Longrightarrow>
   token_cleared_on_completion s \<Longrightarrow> token_cleared_on_completion (assign tid obj f s)"
  by (rule tcc_map_entry
        [where f = "\<lambda>entry. if fst entry = obj then apsnd f entry else entry" and k = tid and s = s])
     (simp_all add: assign_def)

lemma tcc_perform: "token_cleared_on_completion s \<Longrightarrow> token_cleared_on_completion (perform e s)"
  by (simp add: tcc_cong [of "perform e s" s])

lemma tcc_persistTasks:
  "token_cleared_on_completion s \<Longrightarrow> token_cleared_on_completion (persistTasks s)"
  by (simp add: tcc_cong [of "persistTasks s" s])

lemma tcc_mqueue:
  "token_cleared_on_completion s \<Longrightarrow> token_cleared_on_completion (s\<lparr>mqueue := q\<rparr>)"
  by (simp add: tcc_cong [of "s\<lparr>mqueue := q\<rparr>" s])

lemma tcc_downloads:
  "token_cleared_on_completion s \<Longrightarrow> token_cleared_on_completion (s\<lparr>downloads := d\<rparr>)"
  by (simp add: tcc_cong [of "s\<lparr>downloads := d\<rparr>" s])

lemma tcc_network:
  "token_cleared_on_completion s \<Longrightarrow> token_cleared_on_completion (s\<lparr>network := n\<rparr>)"
  by (simp add: tcc_cong [of "s\<lparr>network := n\<rparr>" s])

lemma tcc_isInitialized:
  "token_cleared_on_completion s \<Longrightarrow> token_cleared_on_completion (s\<lparr>isInitialized := b\<rparr>)"
  by (simp add: tcc_cong [of "s\<lparr>isInitialized := b\<rparr>" s])

lemma tcc_allocated:
  "token_cleared_on_completion s \<Longrightarrow> token_cleared_on_completion (s\<lparr>allocated := n\<rparr>)"
  by (simp add: tcc_cong [of "s\<lparr>allocated := n\<rparr>" s])

lemma tcc_two_updates:
  assumes "\<And>t. completed_without_token ((f t)\<lparr>status := st\<rparr>)"
    and "token_cleared_on_completion s"
  shows "token_cleared_on_completion (updateTaskStatus tid st (update_task tid f s))"
proof (rule tcc_map_entry
    [where f = "\<lambda>e. apsnd (\<lambda>t. t\<lparr>status := st\<rparr>) (apsnd f e)" and k = tid and s = s])
  show "tasks (updateTaskStatus tid st (update_task tid f s))
      = AList.map_entry tid (\<lambda>e. apsnd (\<lambda>t. t\<lparr>status := st\<rparr>) (apsnd f e)) (tasks s)"
    by (simp add: map_entry_twice)
qed (use assms in simp_all)

lemma tcc_assign_then_status:
  assumes "st \<noteq> COMPLETED" and "token_cleared_on_completion s"
  shows "token_cleared_on_completion (updateTaskStatus tid st (assign tid obj f s))"
proof (rule tcc_map_entry
    [where f = "\<lambda>e. apsnd (\<lambda>t. t\<lparr>status := st\<rparr>) (if fst e = obj then apsnd f e else e)"
       and k = tid and s = s])
  show "tasks (updateTaskStatus tid st (assign tid obj f s))
      = AList.map_entry tid
          (\<lambda>e. apsnd (\<lambda>t. t\<lparr>status := st\<rparr>) (if fst e = obj then apsnd f e else e)) (tasks s)"
    by (simp add: assign_def map_entry_twice)
qed (use assms in \<open>simp_all add: completed_without_token_def\<close>)

lemmas tcc_fields = tcc_perform tcc_persistTasks tcc_mqueue tcc_downloads tcc_network
  tcc_isInitialized tcc_allocated

lemma tcc_begin_transfer:
  "token_cleared_on_completion s \<Longrightarrow> token_cleared_on_completion (begin_transfer tid obj now s)"
  unfolding begin_transfer_def Let_def
  by (intro tcc_fields tcc_assign tcc_updateTaskStatus)
     (simp_all add: completed_without_token_def)

lemma tcc_startDownload:
  "token_cleared_on_completion s \<Longrightarrow> token_cleared_on_completion (startDownload tid now s)"
  by (auto simp: startDownload_def split: option.splits prod.splits
      intro: tcc_begin_transfer tcc_perform)

lemma tcc_processQueue:
  "token_cleared_on_completion s \<Longrightarrow> token_cleared_on_completion (processQueue now s)"
  by (rule processQueue_preserves [where P = token_cleared_on_completion])
     (simp_all add: tcc_startDownload tcc_mqueue)

lemma tcc_handleDownloadError:
  assumes "token_cleared_on_completion s"
  shows "token_cleared_on_completion (handleDownloadError tid err now s)"
proof (cases "getTask s tid")
  case None
  then show ?thesis using assms by (simp add: handleDownloadError_def)
next
  case (Some task)
  have "token_cleared_on_completion
      (updateTaskStatus tid FAILED (update_task tid (\<lambda>t. t\<lparr>error := Some err\<rparr>) s))"
    using assms by (intro tcc_two_updates) (simp_all add: completed_without_token_def)
  then show ?thesis
    using Some unfolding handleDownloadError_def Let_def
    by (simp only: option.case) (intro tcc_processQueue tcc_fields)
qed

lemma tcc_storageChecked:
  "token_cleared_on_completion s \<Longrightarrow>
   token_cleared_on_completion (storageChecked tid obj b now s)"
  by (simp add: storageChecked_def tcc_handleDownloadError tcc_begin_transfer)

lemma updateTaskStatus_absent: "map_of (tasks s) tid = None \<Longrightarrow> updateTaskStatus tid st s = s"
  by (simp add: updateTaskStatus_def getTask_def)

text \<open>
  The completion of a transfer keeps the property if the task object that
  \<open>startDownload\<close> has kept is the one registered, or if no task is registered
  under the id.
\<close>

lemma tcc_transferCompleted:
  assumes "token_cleared_on_completion s"
    and "case map_of (tasks s) tid of None \<Rightarrow> True | Some entry \<Rightarrow> fst entry = obj"
  shows "token_cleared_on_completion (transferCompleted tid obj now s)"
proof -
  let ?f = "\<lambda>t. t\<lparr>completedAt := Some now, progress := Num 100, resumeData := None\<rparr>"
  have "token_cleared_on_completion (updateTaskStatus tid COMPLETED (assign tid obj ?f s))"
  proof (cases "map_of (tasks s) tid")
    case None
    then have "assign tid obj ?f s = s" by (rule assign_absent)
    moreover have "updateTaskStatus tid COMPLETED s = s"
      using None by (rule updateTaskStatus_absent)
    ultimately show ?thesis using assms(1) by (simp only:)
  next
    case (Some entry)
    with assms(2) have e: "map_of (tasks s) tid = Some (obj, snd entry)"
      by (cases entry) simp
    have "token_cleared_on_completion (updateTaskStatus tid COMPLETED (update_task tid ?f s))"
      using assms(1) by (intro tcc_two_updates) (simp_all add: completed_without_token_def)
    then show ?thesis
      by (simp only: assign_registered [OF e])
  qed
  then have "token_cleared_on_completion
      (persistTasks (perform (Emit_completed tid)
         ((updateTaskStatus tid COMPLETED (assign tid obj ?f s))
            \<lparr>mqueue := complete_q tid (mqueue (updateTaskStatus tid COMPLETED (assign tid obj ?f s))),
              downloads := set_delete tid (downloads (updateTaskStatus tid COMPLETED (assign tid obj ?f s)))\<rparr>)))"
    by (intro tcc_persistTasks tcc_perform tcc_downloads tcc_mqueue)
  then show ?thesis
    by (simp add: transferCompleted_def Let_def)
qed


lemma tcc_transferSettled:
  assumes "token_cleared_on_completion s"
    and "outcome = Download_result \<longrightarrow>
      (case map_of (tasks s) tid of None \<Rightarrow> True | Some entry \<Rightarrow> fst entry = obj)"
  shows "token_cleared_on_completion (transferSettled tid obj outcome now s)"
proof (cases outcome)
  case Download_result
  then show ?thesis using assms by (simp add: transferSettled_def tcc_transferCompleted)
next
  case Download_undefined
  then show ?thesis using assms by (simp add: transferSettled_def)
next
  case (Download_rejects r)
  then show ?thesis using assms
    by (cases r) (simp_all add: transferSettled_def tcc_handleDownloadError)
qed

lemma tcc_pauseResolved:
  assumes "token_cleared_on_completion s"
  shows "token_cleared_on_completion (pauseResolved tid obj outcome s)"
proof (cases outcome)
  case (Pause_resolves r)
  have "token_cleared_on_completion
      (updateTaskStatus tid PAUSED (assign tid obj (\<lambda>t. t\<lparr>resumeData := resumeData_of r\<rparr>) s))"
    using assms by (intro tcc_assign_then_status) simp_all
  then show ?thesis
    using Pause_resolves unfolding pauseResolved_def Let_def
    by (simp only: pause_outcome.case) (intro tcc_fields)
next
  case Pause_throws
  then show ?thesis using assms by (simp add: pauseResolved_def tcc_perform)
qed

lemma tcc_pausePersisted:
  "token_cleared_on_completion s \<Longrightarrow> token_cleared_on_completion (pausePersisted tid now s)"
  unfolding pausePersisted_def Let_def by (intro tcc_processQueue tcc_fields)

lemma tcc_pauseSettled:
  "token_cleared_on_completion s \<Longrightarrow>
   token_cleared_on_completion (pauseSettled tid obj outcome now s)"
  by (cases outcome) (simp_all add: pauseSettled_def tcc_pausePersisted tcc_pauseResolved)


lemma tcc_pause_begin:
  "token_cleared_on_completion (snd (pause_begin tid s)) = token_cleared_on_completion s"
  by (rule tcc_cong) (simp add: pause_begin_def Let_def split: option.splits prod.splits)

lemma tcc_pause:
  "token_cleared_on_completion s \<Longrightarrow> token_cleared_on_completion (snd (pause tid outcome now s))"
  using tcc_pause_begin [of tid s]
  by (cases "pause_begin tid s")
     (auto simp: pause_def tcc_pauseSettled split: pause_start.splits)

lemma tcc_resume:
  assumes "token_cleared_on_completion s"
  shows "token_cleared_on_completion (snd (resume tid now s))"
proof -
  let ?s0 = "perform (Invoke_resume tid) s"
  have s0: "token_cleared_on_completion ?s0" using assms by (rule tcc_perform)
  have a: "token_cleared_on_completion
      (processQueue now ((updateTaskStatus tid PENDING s1)\<lparr>mqueue := q\<rparr>))"
    if "token_cleared_on_completion s1" for s1 q
    using that by (intro tcc_processQueue tcc_fields tcc_updateTaskStatus) simp_all
  have b: "token_cleared_on_completion (update_task tid (\<lambda>t. t\<lparr>error := None\<rparr>) ?s0)"
    using s0 by (rule tcc_update_task [rotated]) (simp add: completed_without_token_def)
  show ?thesis
    using s0 a [OF s0] a [OF b]
    by (auto simp: resume_def Let_def split: option.splits)
qed

lemma tcc_handleProgress:
  "token_cleared_on_completion s \<Longrightarrow> token_cleared_on_completion (handleProgress tid w e s)"
  unfolding handleProgress_def
  by (cases "getTask s tid")
     (auto intro!: tcc_perform tcc_update_task simp: completed_without_token_def)

lemma tcc_subset:
  "set (tasks s') \<subseteq> set (tasks s) \<Longrightarrow> token_cleared_on_completion s \<Longrightarrow>
   token_cleared_on_completion s'"
  by (auto simp: tcc_iff)

lemma tcc_cancel_begin:
  "token_cleared_on_completion (snd (cancel_begin tid s)) = token_cleared_on_completion s"
  by (rule tcc_cong) (simp add: cancel_begin_def cancel_remove_def split: option.splits)

lemma tcc_cancel_pause_settled:
  "token_cleared_on_completion (cancel_pause_settled tid path b s) = token_cleared_on_completion s"
  by (rule tcc_cong) (simp add: cancel_pause_settled_def cancel_remove_def Let_def)

lemma tcc_cancel_file_deleted:
  "token_cleared_on_completion (cancel_file_deleted tid s) = token_cleared_on_completion s"
  by (rule tcc_cong) (simp add: cancel_file_deleted_def)

lemma tcc_cancel_metadata_deleted:
  assumes "token_cleared_on_completion s"
  shows "token_cleared_on_completion (cancel_metadata_deleted tid s)"
proof -
  define s6 where "s6 = perform (Emit_cancelled tid) (updateTaskStatus tid CANCELLED s)"
  have "token_cleared_on_completion s6"
    using assms unfolding s6_def by (intro tcc_fields tcc_updateTaskStatus) simp_all
  then have "token_cleared_on_completion (unregister tid s6)"
    by (rule tcc_subset [rotated]) (simp add: unregister_def set_alist_delete)
  then show ?thesis
    unfolding cancel_metadata_deleted_def Let_def s6_def by (intro tcc_fields)
qed

lemma tcc_cancel:
  assumes "token_cleared_on_completion s"
  shows "token_cleared_on_completion (snd (cancel tid pauseThrows now s))"
  using assms tcc_cancel_begin [of tid s]
  by (cases "cancel_begin tid s")
     (auto simp: cancel_def tcc_cancel_pause_settled tcc_cancel_file_deleted
        split: cancel_start.splits
        intro!: tcc_processQueue tcc_cancel_metadata_deleted)

lemma tcc_register:
  assumes "completed_without_token task" "token_cleared_on_completion s"
  shows "token_cleared_on_completion (register k task s)"
  using assms set_alist_update [of k "(allocated s, task)" "tasks s"]
  by (auto simp: tcc_iff register_def)

lemma tcc_download_begin:
  assumes "token_cleared_on_completion s"
  shows "token_cleared_on_completion (snd (download_begin u options env s))"
proof (cases "validateUrl (parsed_protocol env)")
  case False
  then show ?thesis using assms by (simp add: download_begin_def)
next
  case True
  then show ?thesis
    unfolding download_begin_def Let_def
    by (simp only: not_True_eq_False if_False snd_conv)
       (intro tcc_fields tcc_register assms, simp add: completed_without_token_def)
qed

lemma tcc_download_saved:
  "token_cleared_on_completion s \<Longrightarrow>
   token_cleared_on_completion (download_saved tid options now s)"
  unfolding download_saved_def by (intro tcc_processQueue tcc_fields)


lemma tcc_load_task:
  "completed_without_token task \<Longrightarrow> token_cleared_on_completion s \<Longrightarrow>
   token_cleared_on_completion (load_task s task)"
  unfolding load_task_def Let_def
  by (rule tcc_register) (simp_all add: completed_without_token_def)

lemma tcc_foldl_load_task:
  "list_all completed_without_token saved \<Longrightarrow> token_cleared_on_completion s \<Longrightarrow>
   token_cleared_on_completion (foldl load_task s saved)"
  by (induction saved arbitrary: s) (simp_all add: tcc_load_task)

lemma tcc_handleNetworkOnline:
  "token_cleared_on_completion s \<Longrightarrow> token_cleared_on_completion (handleNetworkOnline now s)"
proof -
  have step: "token_cleared_on_completion s' \<Longrightarrow>
      token_cleared_on_completion
        (case resume (task_id task) now s' of
           (Some err, s'') \<Rightarrow> perform (Console_error ''Failed to auto-resume:'') s''
         | (None, s'') \<Rightarrow> s'')" for s' :: DownloadManager and task :: DownloadTask
    using tcc_resume [of s' "task_id task" now]
    by (cases "resume (task_id task) now s'") (auto split: option.splits intro: tcc_perform)
  have fold: "token_cleared_on_completion s' \<Longrightarrow>
      token_cleared_on_completion
        (foldl (\<lambda>s' task. case resume (task_id task) now s' of
           (Some err, s'') \<Rightarrow> perform (Console_error ''Failed to auto-resume:'') s''
         | (None, s'') \<Rightarrow> s'') s' xs)" for s' :: DownloadManager and xs :: "DownloadTask list"
    by (induction xs arbitrary: s') (simp_all add: step)
  assume "token_cleared_on_completion s"
  then show ?thesis by (simp add: handleNetworkOnline_def fold)
qed

lemma tcc_handleNetworkOffline:
  "token_cleared_on_completion s \<Longrightarrow> token_cleared_on_completion (handleNetworkOffline s)"
proof -
  have step: "token_cleared_on_completion s' \<Longrightarrow>
      token_cleared_on_completion
        (case pause_begin (task_id task) s' of
           (Pause_not_found, s'') \<Rightarrow>
             perform (Console_error ''Failed to pause on network loss:'') s''
         | (r, s'') \<Rightarrow> s'')" for s' :: DownloadManager and task :: DownloadTask
    using tcc_pause_begin [of "task_id task" s']
    by (cases "pause_begin (task_id task) s'") (auto split: pause_start.splits intro: tcc_perform)
  have fold: "token_cleared_on_completion s' \<Longrightarrow>
      token_cleared_on_completion
        (foldl (\<lambda>s' task. case pause_begin (task_id task) s' of
           (Pause_not_found, s'') \<Rightarrow>
             perform (Console_error ''Failed to pause on network loss:'') s''
         | (r, s'') \<Rightarrow> s'') s' xs)" for s' :: DownloadManager and xs :: "DownloadTask list"
    by (induction xs arbitrary: s') (simp_all add: step)
  assume "token_cleared_on_completion s"
  then show ?thesis by (simp add: handleNetworkOffline_def fold)
qed

lemma tcc_checkNetworkState:
  "token_cleared_on_completion s \<Longrightarrow> token_cleared_on_completion (checkNetworkState p now s)"
  unfolding checkNetworkState_def Let_def
  by (cases p)
     (auto intro!: tcc_handleNetworkOnline tcc_handleNetworkOffline tcc_fields)

lemma tcc_startMonitoring:
  "token_cleared_on_completion s \<Longrightarrow> token_cleared_on_completion (startMonitoring p now s)"
  unfolding startMonitoring_def Let_def
  by (auto intro!: tcc_checkNetworkState tcc_fields)

lemma tcc_initialize:
  "list_all completed_without_token saved \<Longrightarrow> token_cleared_on_completion s \<Longrightarrow>
   token_cleared_on_completion (snd (initialize dirOk saved p now s))"
  unfolding initialize_def Let_def
  by (auto intro!: tcc_startMonitoring tcc_foldl_load_task tcc_fields)

lemma tcc_pause_each:
  "token_cleared_on_completion s \<Longrightarrow>
   token_cleared_on_completion (snd (pause_each outcomes now xs s))"
proof (induction xs arbitrary: s)
  case Nil
  then show ?case by simp
next
  case (Cons task xs)
  obtain r s' where p: "pause (task_id task) (outcomes (task_id task)) now s = (r, s')"
    by (cases "pause (task_id task) (outcomes (task_id task)) now s")
  have "token_cleared_on_completion s'"
    using tcc_pause [OF Cons.prems, of "task_id task" "outcomes (task_id task)" now] p by simp
  then show ?case using p Cons.IH [of s'] by (cases r) simp_all
qed

lemma tcc_cleanup:
  "token_cleared_on_completion s \<Longrightarrow> token_cleared_on_completion (snd (cleanup outcomes now s))"
  using tcc_pause_each [of s outcomes now "getActiveDownloads s"]
  by (cases "pause_each outcomes now (getActiveDownloads s) s")
     (auto simp: cleanup_def stopMonitoring_def split: option.splits intro!: tcc_fields)

lemma tcc_step:
  "snapshot_ok e \<Longrightarrow> completes_registered e s \<Longrightarrow> token_cleared_on_completion s \<Longrightarrow>
   token_cleared_on_completion (step e s)"
  by (cases e)
     (simp_all add: tcc_initialize tcc_download_begin tcc_download_saved tcc_pause_begin
        tcc_pauseResolved tcc_pausePersisted tcc_resume tcc_cancel_begin
        tcc_cancel_pause_settled tcc_cancel_file_deleted tcc_cancel_metadata_deleted
        tcc_processQueue tcc_storageChecked tcc_transferSettled tcc_handleProgress
        tcc_checkNetworkState tcc_cleanup)

lemma tcc_run:
  "regular es s \<Longrightarrow> token_cleared_on_completion s \<Longrightarrow>
   token_cleared_on_completion (run es s)"
  by (induction es arbitrary: s) (simp_all add: tcc_step)

lemma tcc_new: "token_cleared_on_completion (new_DownloadManager cfg)"
  by (simp add: token_cleared_on_completion_def new_DownloadManager_def getAllTasks_def)


subsection \<open>Storing, keeping and clearing the resume data\<close>

lemma getTask_startDownload_other:
  "k \<noteq> tid \<Longrightarrow> getTask (startDownload k now s) tid = getTask s tid"
  by (simp add: getTask_startDownload)

lemma getNext_Some:
  "getNext q = (Some k, q') \<Longrightarrow> k \<in> taskId ` set (queue q) \<and> set (queue q') \<subseteq> set (queue q)"
  by (auto simp: getNext_def split: if_splits list.splits)

lemma processQueue_unqueued:
  "tid \<notin> taskId ` set (queue (mqueue s)) \<Longrightarrow> getTask (processQueue now s) tid = getTask s tid"
proof (induction now s rule: processQueue.induct)
  case (1 now s)
  show ?case
  proof (cases "hasCapacity (mqueue s)")
    case False
    then show ?thesis by (simp add: processQueue_no_capacity)
  next
    case True
    obtain t q' where g: "getNext (mqueue s) = (t, q')" by (cases "getNext (mqueue s)")
    show ?thesis
    proof (cases t)
      case None
      with True g show ?thesis by (simp add: processQueue.simps)
    next
      case (Some k)
      from g Some have k: "k \<in> taskId ` set (queue (mqueue s))"
        and sub: "set (queue q') \<subseteq> set (queue (mqueue s))"
        using getNext_Some by blast+
      from k "1.prems" have ne: "k \<noteq> tid" by blast
      show ?thesis
      proof (cases "k = []")
        case True
        with \<open>hasCapacity (mqueue s)\<close> g Some show ?thesis by (simp add: processQueue.simps)
      next
        case False
        have "tid \<notin> taskId ` set (queue (mqueue (startDownload k now (s\<lparr>mqueue := q'\<rparr>))))"
          using "1.prems" sub by auto
        from "1.IH" [OF True g [symmetric] Some False this]
        have "getTask (processQueue now (startDownload k now (s\<lparr>mqueue := q'\<rparr>))) tid = getTask s tid"
          using ne by (simp add: getTask_startDownload_other)
        with True g Some False show ?thesis by (simp add: processQueue.simps)
      qed
    qed
  qed
qed

text \<open>
  When \<open>pauseAsync()\<close> resolves and the task object that \<open>pause\<close> has kept is the
  one registered, the task is \<open>Paused\<close> with the resume data of the result.
\<close>

lemma pauseResolved_stores_token:
  assumes "map_of (tasks s) tid = Some (obj, t)"
  shows "getTask (pauseResolved tid obj (Pause_resolves r) s) tid
      = Some (t\<lparr>resumeData := resumeData_of r, status := PAUSED\<rparr>)"
proof -
  have "assign tid obj (\<lambda>t. t\<lparr>resumeData := resumeData_of r\<rparr>) s
      = update_task tid (\<lambda>t. t\<lparr>resumeData := resumeData_of r\<rparr>) s"
    using assms by (rule assign_registered)
  moreover have "getTask s tid = Some t"
    using assms by (simp add: getTask_def)
  ultimately show ?thesis
    by (simp add: pauseResolved_def Let_def getTask_updateTaskStatus getTask_update_task)
qed

text \<open>
  When the object has been replaced in the registry, the resume data goes to the
  object that is no longer registered: the registered task is \<open>Paused\<close> with the
  resume data it had.
\<close>

lemma pauseResolved_replaced:
  assumes "map_of (tasks s) tid = Some (other, t)" "other \<noteq> obj"
  shows "getTask (pauseResolved tid obj (Pause_resolves r) s) tid = Some (t\<lparr>status := PAUSED\<rparr>)"
proof -
  have "assign tid obj (\<lambda>t. t\<lparr>resumeData := resumeData_of r\<rparr>) s = s"
    using assms by (rule assign_replaced)
  moreover have "getTask s tid = Some t"
    using assms(1) by (simp add: getTask_def)
  ultimately show ?thesis
    by (simp add: pauseResolved_def Let_def getTask_updateTaskStatus)
qed

lemma pause_stores_token:
  assumes "getTask s tid = Some t" "status t = DOWNLOADING" "tid \<in> set (downloads s)"
    "tid \<notin> set (getQueuedTaskIds (mqueue s))"
  shows "pause tid (Pause_resolves r) now s
      = (None, pauseSettled tid (fst (the (map_of (tasks s) tid))) (Pause_resolves r) now
                 (perform (Transfer_pauseAsync tid) (perform (Invoke_pause tid) s)))"
    and "getTask (snd (pause tid (Pause_resolves r) now s)) tid
      = Some (t\<lparr>resumeData := resumeData_of r, status := PAUSED\<rparr>)"
proof -
  from assms(1) obtain obj where e: "map_of (tasks s) tid = Some (obj, t)"
    by (auto simp: getTask_def)
  let ?s' = "perform (Transfer_pauseAsync tid) (perform (Invoke_pause tid) s)"
  have b: "pause_begin tid s = (Pause_awaiting obj, ?s')"
    using e assms(2,3) by (simp add: pause_begin_def Let_def)
  then show p: "pause tid (Pause_resolves r) now s
      = (None, pauseSettled tid (fst (the (map_of (tasks s) tid))) (Pause_resolves r) now ?s')"
    using e by (simp add: pause_def)
  have e': "map_of (tasks ?s') tid = Some (obj, t)" using e by simp
  have g: "getTask (pauseResolved tid obj (Pause_resolves r) ?s') tid
      = Some (t\<lparr>resumeData := resumeData_of r, status := PAUSED\<rparr>)"
    using e' by (rule pauseResolved_stores_token)
  let ?s4 = "(pauseResolved tid obj (Pause_resolves r) ?s')
      \<lparr>mqueue := complete_q tid (mqueue (pauseResolved tid obj (Pause_resolves r) ?s')),
        downloads := set_delete tid (downloads (pauseResolved tid obj (Pause_resolves r) ?s'))\<rparr>"
  have q: "mqueue (pauseResolved tid obj (Pause_resolves r) ?s') = mqueue s"
    by (simp add: pauseResolved_def Let_def)
  have "tid \<notin> taskId ` set (queue (mqueue ?s4))"
    using assms(4) by (simp add: q complete_q_def getQueuedTaskIds_def)
  then have "getTask (processQueue now ?s4) tid = getTask ?s4 tid"
    by (rule processQueue_unqueued)
  moreover have "pauseSettled tid obj (Pause_resolves r) now ?s' = processQueue now ?s4"
    by (simp add: pauseSettled_def pausePersisted_def Let_def)
  ultimately show "getTask (snd (pause tid (Pause_resolves r) now s)) tid
      = Some (t\<lparr>resumeData := resumeData_of r, status := PAUSED\<rparr>)"
    using g p e by simp
qed

lemma processQueue_keeps_token:
  assumes "getTask s tid = Some t" "status t = PENDING \<or> status t = DOWNLOADING"
  shows "\<exists>t'. getTask (processQueue now s) tid = Some t' \<and> resumeData t' = resumeData t
           \<and> (status t' = PENDING \<or> status t' = DOWNLOADING)"
proof -
  let ?P = "\<lambda>s'::DownloadManager. \<exists>t'. getTask s' tid = Some t' \<and> resumeData t' = resumeData t
           \<and> (status t' = PENDING \<or> status t' = DOWNLOADING)"
  have "?P (processQueue now s)"
  proof (rule processQueue_preserves [where P = ?P])
    show "?P s" using assms by simp
  next
    fix s' :: DownloadManager and x q' assume "?P s'" then show "?P (s'\<lparr>mqueue := q'\<rparr>)" by simp
  next
    fix s' :: DownloadManager and k x assume "?P s'"
    then show "?P (startDownload k x s')"
      by (auto simp: getTask_startDownload)
  qed
  then show ?thesis .
qed

lemma resume_keeps_token:
  assumes "getTask s tid = Some t" "status t = PAUSED" "isOnline (network s)"
  shows "fst (resume tid now s) = None
     \<and> (\<exists>t'. getTask (snd (resume tid now s)) tid = Some t' \<and> resumeData t' = resumeData t
           \<and> (status t' = PENDING \<or> status t' = DOWNLOADING))"
proof -
  define s3 where "s3 = (updateTaskStatus tid PENDING (perform (Invoke_resume tid) s))
      \<lparr>mqueue := add tid 0 now (mqueue s)\<rparr>"
  have r: "resume tid now s = (None, processQueue now s3)"
    using assms by (simp add: resume_def Let_def s3_def isOnline_def)
  have g: "getTask s3 tid = Some (t\<lparr>status := PENDING\<rparr>)"
    using assms(1) by (simp add: s3_def getTask_updateTaskStatus)
  from processQueue_keeps_token [OF g, of now] r show ?thesis by simp
qed

lemma processQueue_resumeData:
  "map_option resumeData (getTask (processQueue now s) tid) = map_option resumeData (getTask s tid)"
  by (rule processQueue_preserves
        [where P = "\<lambda>s'::DownloadManager. map_option resumeData (getTask s' tid)
                      = map_option resumeData (getTask s tid)"])
     (auto simp: getTask_startDownload option.map_comp comp_def)

text \<open>
  When a transfer completes and the task object that \<open>startDownload\<close> has kept is
  the one registered, the task is \<open>Completed\<close> without resume data, and it is still
  without resume data after the \<open>processQueue\<close> that follows.
\<close>

lemma transferCompleted_registered:
  assumes "map_of (tasks s) tid = Some (obj, t)"
  shows "getTask (transferCompleted tid obj now s) tid
      = Some (t\<lparr>completedAt := Some now, progress := Num 100, resumeData := None,
                status := COMPLETED\<rparr>)"
proof -
  let ?f = "\<lambda>t. t\<lparr>completedAt := Some now, progress := Num 100, resumeData := None\<rparr>"
  have "assign tid obj ?f s = update_task tid ?f s"
    using assms by (rule assign_registered)
  moreover have "getTask s tid = Some t"
    using assms by (simp add: getTask_def)
  ultimately show ?thesis
    by (simp add: transferCompleted_def Let_def getTask_updateTaskStatus getTask_update_task)
qed

text \<open>
  When the object has been replaced in the registry, the registered task is
  \<open>Completed\<close> with the progress and the resume data it had.
\<close>

lemma transferCompleted_replaced:
  assumes "map_of (tasks s) tid = Some (other, t)" "other \<noteq> obj"
  shows "getTask (transferCompleted tid obj now s) tid = Some (t\<lparr>status := COMPLETED\<rparr>)"
proof -
  let ?f = "\<lambda>t. t\<lparr>completedAt := Some now, progress := Num 100, resumeData := None\<rparr>"
  have "assign tid obj ?f s = s"
    using assms by (rule assign_replaced)
  moreover have "getTask s tid = Some t"
    using assms(1) by (simp add: getTask_def)
  ultimately show ?thesis
    by (simp add: transferCompleted_def Let_def getTask_updateTaskStatus)
qed

lemma downloadSettled_clears_token:
  assumes "map_of (tasks s) tid = Some (obj, t)"
  shows "map_option resumeData (getTask (downloadSettled tid obj Download_result now s) tid)
     = Some None"
  using transferCompleted_registered [OF assms, of now]
  by (simp add: downloadSettled_def processQueue_resumeData)

lemma st_online_fields:
  "tasks st_online = [(''t2'', 0, failed_tasks ! 0), (''t3'', 1, failed_tasks ! 1),
              (''t1'', 2, task1\<lparr>status := DOWNLOADING, startedAt := Some 1\<rparr>)]"
  "allocated st_online = 3"
  "downloads st_online = [''t1'']"
  "mqueue st_online = \<lparr>queue = [], activeDownloads = [''t1''], maxConcurrent = 3\<rparr>"
  "network st_online = \<lparr>currentState = ONLINE, checkInterval = True, isMonitoring = True\<rparr>"
  "config st_online = DEFAULT_CONFIG"
  "isInitialized st_online"
  unfolding st_online_def
  by (simp_all add: eval_defs initialize_def load_task_def startMonitoring_def checkNetworkState_def
        new_NetworkMonitor_def failed_tasks_def env1_def no_options_def task1_def
        processQueue_admit processQueue_empty)

lemma st_paused_eq: "st_paused = pauseSettled ''t1'' 2 (Pause_resolves (With_resumeData (Some ''tok''))) 3
    (snd (pause_begin ''t1'' st_online))"
  by (simp add: st_paused_def st_online_def pauseSettled_def)

lemma st_resumed_eq: "st_resumed = snd (resume ''t1'' 4 st_paused)"
  by (simp add: st_resumed_def st_paused_def)

lemma st_paused_fields:
  "tasks st_paused = [(''t2'', 0, failed_tasks ! 0), (''t3'', 1, failed_tasks ! 1),
              (''t1'', 2, task1\<lparr>status := PAUSED, startedAt := Some 1, resumeData := Some ''tok''\<rparr>)]"
  "allocated st_paused = 3"
  "downloads st_paused = []"
  "mqueue st_paused = \<lparr>queue = [], activeDownloads = [], maxConcurrent = 3\<rparr>"
  "network st_paused = \<lparr>currentState = ONLINE, checkInterval = True, isMonitoring = True\<rparr>"
  "config st_paused = DEFAULT_CONFIG"
  "isInitialized st_paused"
  unfolding st_paused_eq
  by (simp_all add: pauseSettled_def pauseResolved_def pausePersisted_def pause_begin_def Let_def
        getTask_def assign_def st_online_fields
        resumeData_of_def task1_def complete_q_def set_delete_def processQueue_empty)


section \<open>Claims about the resume token\<close>

text \<open>
  C8, as amended. A pause that succeeds stores the resume data of its result through
  the task object that \<open>pause\<close> looked up, and sets the task to \<open>Paused\<close>: if that
  object is still the registered one when \<open>pauseAsync()\<close> resolves, the registered
  task is \<open>Paused\<close> with that resume data, as it is after a \<open>pause\<close> that runs
  without interruption. The completion of a transfer deletes the resume data
  through the task object that \<open>startDownload\<close> looked up: if that object is still
  the registered one, the registered task is \<open>Completed\<close> without resume data. In
  every state reached from a new manager by a regular run (the snapshots loaded by
  \<open>initialize\<close> have no completed task with resume data, and each transfer that
  completes for a registered id has kept the registered object), no \<open>Completed\<close>
  task carries resume data. \<open>resume\<close> of a \<open>Paused\<close> task, with the network
  online, succeeds and does not clear the resume data: the task is then \<open>Pending\<close>
  or \<open>Downloading\<close> and still carries it.
\<close>

theorem resume_token_stored_on_pause_cleared_on_completion:
  "(regular es (new_DownloadManager cfg) \<longrightarrow>
      token_cleared_on_completion (run es (new_DownloadManager cfg)))
   \<and> (map_of (tasks sc) idc = Some (objc, tc) \<longrightarrow>
        getTask (transferSettled idc objc Download_result nowc sc) idc
          = Some (tc\<lparr>completedAt := Some nowc, progress := Num 100, resumeData := None,
                     status := COMPLETED\<rparr>)
      \<and> map_option resumeData (getTask (downloadSettled idc objc Download_result nowc sc) idc)
          = Some None)
   \<and> (map_of (tasks s) tid = Some (obj, t) \<longrightarrow>
        getTask (pauseResolved tid obj (Pause_resolves r) s) tid
          = Some (t\<lparr>resumeData := resumeData_of r, status := PAUSED\<rparr>))
   \<and> (getTask sp idp = Some tp \<and> status tp = DOWNLOADING \<and> idp \<in> set (downloads sp)
        \<and> idp \<notin> set (getQueuedTaskIds (mqueue sp)) \<longrightarrow>
        fst (pause idp (Pause_resolves rp) nowp sp) = None
      \<and> getTask (snd (pause idp (Pause_resolves rp) nowp sp)) idp
          = Some (tp\<lparr>resumeData := resumeData_of rp, status := PAUSED\<rparr>))
   \<and> (getTask sr idr = Some tr \<and> status tr = PAUSED \<and> isOnline (network sr) \<longrightarrow>
        fst (resume idr nowr sr) = None
      \<and> map_option resumeData (getTask (snd (resume idr nowr sr)) idr) = Some (resumeData tr)
      \<and> map_option status (getTask (snd (resume idr nowr sr)) idr)
          \<in> {Some PENDING, Some DOWNLOADING})"
proof (intro conjI impI)
  assume "regular es (new_DownloadManager cfg)"
  then show "token_cleared_on_completion (run es (new_DownloadManager cfg))"
    by (rule tcc_run) (rule tcc_new)
next
  assume e: "map_of (tasks sc) idc = Some (objc, tc)"
  then show "getTask (transferSettled idc objc Download_result nowc sc) idc
          = Some (tc\<lparr>completedAt := Some nowc, progress := Num 100, resumeData := None,
                     status := COMPLETED\<rparr>)"
    by (simp add: transferSettled_def transferCompleted_registered)
  from e show "map_option resumeData (getTask (downloadSettled idc objc Download_result nowc sc) idc)
          = Some None"
    by (rule downloadSettled_clears_token)
next
  assume "map_of (tasks s) tid = Some (obj, t)"
  then show "getTask (pauseResolved tid obj (Pause_resolves r) s) tid
          = Some (t\<lparr>resumeData := resumeData_of r, status := PAUSED\<rparr>)"
    by (rule pauseResolved_stores_token)
next
  assume a: "getTask sp idp = Some tp \<and> status tp = DOWNLOADING \<and> idp \<in> set (downloads sp)
        \<and> idp \<notin> set (getQueuedTaskIds (mqueue sp))"
  then have g: "getTask sp idp = Some tp" "status tp = DOWNLOADING" "idp \<in> set (downloads sp)"
    "idp \<notin> set (getQueuedTaskIds (mqueue sp))"
    by simp_all
  from pause_stores_token(1) [OF g, of rp nowp]
  show "fst (pause idp (Pause_resolves rp) nowp sp) = None" by simp
  from g show "getTask (snd (pause idp (Pause_resolves rp) nowp sp)) idp
          = Some (tp\<lparr>resumeData := resumeData_of rp, status := PAUSED\<rparr>)"
    by (rule pause_stores_token(2))
next
  assume b: "getTask sr idr = Some tr \<and> status tr = PAUSED \<and> isOnline (network sr)"
  then have k: "fst (resume idr nowr sr) = None
     \<and> (\<exists>u. getTask (snd (resume idr nowr sr)) idr = Some u \<and> resumeData u = resumeData tr
           \<and> (status u = PENDING \<or> status u = DOWNLOADING))"
    by (intro resume_keeps_token) simp_all
  then show "fst (resume idr nowr sr) = None" by simp
  from k show "map_option resumeData (getTask (snd (resume idr nowr sr)) idr) = Some (resumeData tr)"
    by auto
  from k show "map_option status (getTask (snd (resume idr nowr sr)) idr)
          \<in> {Some PENDING, Some DOWNLOADING}"
    by auto
qed

theorem resume_token_stored_on_pause_cleared_on_completion_witness:
  "regular [Ev_download ''https://x/a.mp4'' no_options env1,
       Ev_download_saved ''t1'' no_options 1,
       Ev_download_settled ''t1'' 0 Download_result 9,
       Ev_persisted 9] (new_DownloadManager DEFAULT_CONFIG)
   \<and> token_cleared_on_completion st_completed
   \<and> map_of (tasks st_downloading) ''t1''
        = Some (0, task1\<lparr>status := DOWNLOADING, startedAt := Some 1\<rparr>)
   \<and> map_option status (getTask (transferSettled ''t1'' 0 Download_result 9 st_downloading) ''t1'')
        = Some COMPLETED
   \<and> map_option resumeData (getTask (downloadSettled ''t1'' 0 Download_result 9 st_downloading) ''t1'')
        = Some None
   \<and> map_of (tasks (snd (pause_begin ''t1'' st_online))) ''t1''
        = Some (2, task1\<lparr>status := DOWNLOADING, startedAt := Some 1\<rparr>)
   \<and> map_option resumeData
        (getTask (pauseResolved ''t1'' 2 (Pause_resolves (With_resumeData (Some ''tok'')))
                    (snd (pause_begin ''t1'' st_online))) ''t1'')
        = Some (Some ''tok'')
   \<and> getTask st_online ''t1'' = Some (task1\<lparr>status := DOWNLOADING, startedAt := Some 1\<rparr>)
   \<and> ''t1'' \<in> set (downloads st_online)
   \<and> ''t1'' \<notin> set (getQueuedTaskIds (mqueue st_online))
   \<and> fst (pause ''t1'' (Pause_resolves (With_resumeData (Some ''tok''))) 3 st_online) = None
   \<and> map_option status
        (getTask (snd (pause ''t1'' (Pause_resolves (With_resumeData (Some ''tok''))) 3 st_online))
           ''t1'')
        = Some PAUSED
   \<and> map_option status (getTask st_paused ''t1'') = Some PAUSED
   \<and> map_option resumeData (getTask st_paused ''t1'') = Some (Some ''tok'')
   \<and> isOnline (network st_paused)
   \<and> fst (resume ''t1'' 4 st_paused) = None
   \<and> map_option resumeData (getTask (snd (resume ''t1'' 4 st_paused)) ''t1'') = Some (Some ''tok'')"
proof -
  have h: "step (Ev_download_saved ''t1'' no_options 1)
      (step (Ev_download ''https://x/a.mp4'' no_options env1) (new_DownloadManager DEFAULT_CONFIG))
      = st_downloading"
    by (simp add: st_downloading_def)
  have d: "map_of (tasks st_downloading) ''t1''
        = Some (0, task1\<lparr>status := DOWNLOADING, startedAt := Some 1\<rparr>)"
    by (simp add: st_downloading_eq)
  have e: "regular [Ev_download ''https://x/a.mp4'' no_options env1,
       Ev_download_saved ''t1'' no_options 1,
       Ev_download_settled ''t1'' 0 Download_result 9,
       Ev_persisted 9] (new_DownloadManager DEFAULT_CONFIG)"
    by (simp only: regular.simps snapshot_ok.simps completes_registered.simps h) (simp add: d)
  have c: "run [Ev_download ''https://x/a.mp4'' no_options env1,
       Ev_download_saved ''t1'' no_options 1,
       Ev_download_settled ''t1'' 0 Download_result 9,
       Ev_persisted 9] (new_DownloadManager DEFAULT_CONFIG) = st_completed"
    by (simp add: st_completed_def)
  have b: "map_of (tasks (snd (pause_begin ''t1'' st_online))) ''t1''
        = Some (2, task1\<lparr>status := DOWNLOADING, startedAt := Some 1\<rparr>)"
    by (simp add: pause_begin_def Let_def st_online_fields)
  have o: "getTask st_online ''t1'' = Some (task1\<lparr>status := DOWNLOADING, startedAt := Some 1\<rparr>)"
    "''t1'' \<in> set (downloads st_online)"
    "''t1'' \<notin> set (getQueuedTaskIds (mqueue st_online))"
    by (simp_all add: getTask_def st_online_fields getQueuedTaskIds_def)
  have p: "getTask st_paused ''t1''
        = Some (task1\<lparr>status := PAUSED, startedAt := Some 1, resumeData := Some ''tok''\<rparr>)"
    "isOnline (network st_paused)"
    by (simp_all add: getTask_def st_paused_fields isOnline_def)
  from resume_token_stored_on_pause_cleared_on_completion
    [where es = "[Ev_download ''https://x/a.mp4'' no_options env1,
       Ev_download_saved ''t1'' no_options 1,
       Ev_download_settled ''t1'' 0 Download_result 9,
       Ev_persisted 9]"
      and cfg = DEFAULT_CONFIG
      and sc = st_downloading and idc = "''t1''" and objc = 0 and nowc = 9
      and tc = "task1\<lparr>status := DOWNLOADING, startedAt := Some 1\<rparr>"
      and s = "snd (pause_begin ''t1'' st_online)" and tid = "''t1''" and obj = 2
      and t = "task1\<lparr>status := DOWNLOADING, startedAt := Some 1\<rparr>"
      and r = "With_resumeData (Some ''tok'')"
      and sp = st_online and idp = "''t1''" and nowp = 3
      and tp = "task1\<lparr>status := DOWNLOADING, startedAt := Some 1\<rparr>"
      and rp = "With_resumeData (Some ''tok'')"
      and sr = st_paused and idr = "''t1''" and nowr = 4
      and tr = "task1\<lparr>status := PAUSED, startedAt := Some 1, resumeData := Some ''tok''\<rparr>"]
    e c d b o p
  show ?thesis
    by (simp add: resumeData_of_def)
qed

text \<open>
  C8 as stated fails: a task that is paused with resume data \<open>tok\<close> and then resumed
  is \<open>Downloading\<close> and still carries \<open>tok\<close>.
\<close>

theorem resumed_task_keeps_token_counterexample:
  "map_option status (getTask st_paused ''t1'') = Some PAUSED
   \<and> map_option status (getTask st_resumed ''t1'') = Some DOWNLOADING
   \<and> map_option resumeData (getTask st_resumed ''t1'') = Some (Some ''tok'')"
  unfolding st_resumed_eq
  by (simp add: resume_def Let_def getTask_def st_paused_fields isOnline_def task1_def
        add_def processQueue_admit processQueue_empty hasCapacity_def set_size_def set_add_def
        startDownload_def begin_transfer_def updateTaskStatus_def update_task_def assign_def
        perform_def failed_tasks_def)

text \<open>
  The proviso on the completion of a transfer is needed. A task is submitted and its
  transfer started; \<open>initialize\<close> then loads a snapshot that holds the task, which
  puts a new object in the registry; the task is resumed and paused, which stores
  \<open>tok\<close> in the new object; then the first transfer completes. \<open>startDownload\<close>
  deletes the resume data of the object it has kept, while \<open>updateTaskStatus\<close>
  looks the id up again: the registered task is \<open>Completed\<close> with the resume data
  \<open>tok\<close>, progress 0 and no completion time.
\<close>

lemma completion_of_replaced_object_keeps_token:
  "map_option (\<lambda>t. (status t, resumeData t, progress t, completedAt t))
      (getTask st_stale_completion ''t1'')
     = Some (COMPLETED, Some ''tok'', Num 0, None)
   \<and> \<not> token_cleared_on_completion st_stale_completion"
proof -
  have "tasks st_stale_completion
      = [(''t1'', 1, task1\<lparr>status := COMPLETED, startedAt := Some 3, resumeData := Some ''tok''\<rparr>)]"
    unfolding st_stale_completion_def
    by (simp add: eval_defs initialize_def load_task_def startMonitoring_def checkNetworkState_def
        new_NetworkMonitor_def env1_def no_options_def task1_def resume_def isOnline_def
        pause_begin_def pauseResolved_def pausePersisted_def resumeData_of_def
        transferSettled_def transferCompleted_def
        processQueue_admit processQueue_empty)
  then show ?thesis
    by (simp add: getTask_def token_cleared_on_completion_def getAllTasks_def
        completed_without_token_def task1_def)
qed


section \<open>Claims about cancel\<close>

text \<open>
  C4 fails when something else runs while \<open>cancel\<close> waits. \<open>cancel\<close> is called
  for the paused task \<open>t1\<close>, which has no transfer handle, so it removes the id
  from the queue and waits for \<open>storage.deleteFile\<close>. While it waits, \<open>resume\<close> is
  called for \<open>t1\<close>, which is still registered and \<open>Paused\<close>: the task is queued
  again, admitted, and a transfer is started. \<open>cancel\<close> then goes on: it deletes
  the metadata, emits the events and removes the task from the registry. After
  \<open>cancel\<close> has completed the task is not in the registry, but its id is in the
  admitted set, where it holds a slot, and its transfer is running, started before
  the metadata was deleted.
\<close>

theorem cancel_interleaved_with_resume_leaves_transfer:
  "getTask st_paused ''t1''
     = Some (task1\<lparr>status := PAUSED, startedAt := Some 1, resumeData := Some ''tok''\<rparr>)
   \<and> fst (cancel_begin ''t1'' st_paused) = Cancel_awaits_deleteFile
   \<and> trace st_cancel_resumed
       = trace st_paused
         @ [Storage_deleteFile ''/docs/downloads/a.mp4'',
            Invoke_resume ''t1'',
            Emit_status_change ''t1'' PAUSED PENDING,
            Emit_status_change ''t1'' PENDING DOWNLOADING,
            Transfer_create ''t1'', Transfer_downloadAsync ''t1'',
            Storage_deleteMetadata ''t1'',
            Emit_status_change ''t1'' DOWNLOADING CANCELLED,
            Emit_cancelled ''t1'',
            Storage_saveTasks [failed_tasks ! 0, failed_tasks ! 1]]
   \<and> getTask st_cancel_resumed ''t1'' = None
   \<and> getQueuedTaskIds (mqueue st_cancel_resumed) = []
   \<and> isActive ''t1'' (mqueue st_cancel_resumed)
   \<and> getActiveCount (mqueue st_cancel_resumed) = 1
   \<and> downloads st_cancel_resumed = [''t1'']"
proof -
  have "tasks st_cancel_resumed = [(''t2'', 0, failed_tasks ! 0), (''t3'', 1, failed_tasks ! 1)]"
    and "mqueue st_cancel_resumed = \<lparr>queue = [], activeDownloads = [''t1''], maxConcurrent = 3\<rparr>"
    and "downloads st_cancel_resumed = [''t1'']"
    and "trace st_cancel_resumed
       = trace st_paused
         @ [Storage_deleteFile ''/docs/downloads/a.mp4'',
            Invoke_resume ''t1'',
            Emit_status_change ''t1'' PAUSED PENDING,
            Emit_status_change ''t1'' PENDING DOWNLOADING,
            Transfer_create ''t1'', Transfer_downloadAsync ''t1'',
            Storage_deleteMetadata ''t1'',
            Emit_status_change ''t1'' DOWNLOADING CANCELLED,
            Emit_cancelled ''t1'',
            Storage_saveTasks [failed_tasks ! 0, failed_tasks ! 1]]"
    unfolding st_cancel_resumed_def
    by (simp_all add: run.simps step.simps cancel_begin_def cancel_remove_def
        cancel_file_deleted_def cancel_metadata_deleted_def unregister_def resume_def Let_def
        getTask_def getAllTasks_def st_paused_fields isOnline_def task1_def failed_tasks_def
        remove_def add_def set_delete_def set_add_def set_size_def hasCapacity_def
        startDownload_def begin_transfer_def updateTaskStatus_def update_task_def assign_def
        persistTasks_def perform_def processQueue_admit processQueue_empty)
  moreover have "getTask st_paused ''t1''
     = Some (task1\<lparr>status := PAUSED, startedAt := Some 1, resumeData := Some ''tok''\<rparr>)"
    and "fst (cancel_begin ''t1'' st_paused) = Cancel_awaits_deleteFile"
    by (simp_all add: cancel_begin_def getTask_def st_paused_fields)
  ultimately show ?thesis
    by (simp add: getTask_def getQueuedTaskIds_def isActive_def getActiveCount_def set_size_def)
qed

text \<open>
  C10. \<open>cancel\<close> does not look at the state of the task: for a task in the registry in
  any state, \<open>Completed\<close> included, it does not throw, deletes the task's file and
  metadata, sets the state to \<open>Cancelled\<close>, emits the cancelled event once and removes
  the task from the registry.
\<close>

theorem cancel_ignores_task_state:
  assumes "getTask s tid = Some task"
  shows "fst (cancel tid pauseThrows now s) = None
      \<and> getTask (snd (cancel tid pauseThrows now s)) tid = None
      \<and> Storage_deleteFile (filePath task) \<in> set (trace (snd (cancel tid pauseThrows now s)))
      \<and> Storage_deleteMetadata tid \<in> set (trace (snd (cancel tid pauseThrows now s)))
      \<and> Emit_status_change tid (status task) CANCELLED \<in> set (trace (snd (cancel tid pauseThrows now s)))
      \<and> filter is_cancelled_event (trace (snd (cancel tid pauseThrows now s)))
           = filter is_cancelled_event (trace s) @ [Emit_cancelled tid]"
proof -
  from cancel_before_processQueue [OF assms, of pauseThrows now]
  obtain s8 where c: "cancel tid pauseThrows now s = (None, processQueue now s8)"
    and g: "getTask s8 tid = None"
    and d: "filter is_delete (trace s8)
           = filter is_delete (trace s) @ [Storage_deleteFile (filePath task), Storage_deleteMetadata tid]"
    and e: "filter is_cancelled_event (trace s8)
           = filter is_cancelled_event (trace s) @ [Emit_cancelled tid]"
    and st: "Emit_status_change tid (status task) CANCELLED \<in> set (trace s8)"
    by blast
  obtain ext where ext: "trace (processQueue now s8) = trace s8 @ ext" "\<forall>e \<in> set ext. start_effect e"
    using processQueue_trace by blast
  have "Storage_deleteFile (filePath task) \<in> set (filter is_delete (trace s8))"
    and "Storage_deleteMetadata tid \<in> set (filter is_delete (trace s8))"
    unfolding d by simp_all
  then have "Storage_deleteFile (filePath task) \<in> set (trace (processQueue now s8))"
    and "Storage_deleteMetadata tid \<in> set (trace (processQueue now s8))"
    using ext by simp_all
  moreover have "getTask (processQueue now s8) tid = None"
    using g by (rule processQueue_getTask_None)
  moreover have "Emit_status_change tid (status task) CANCELLED \<in> set (trace (processQueue now s8))"
    using st ext by simp
  moreover have "filter is_cancelled_event (trace (processQueue now s8))
           = filter is_cancelled_event (trace s) @ [Emit_cancelled tid]"
    using ext e by (simp add: filter_quiet)
  ultimately show ?thesis using c by simp
qed

theorem cancel_ignores_task_state_witness:
  "getTask st_completed ''t1''
     = Some (task1\<lparr>status := COMPLETED, startedAt := Some 1, completedAt := Some 9,
               progress := Num 100\<rparr>)
   \<and> fst (cancel ''t1'' False 12 st_completed) = None
   \<and> getTask (snd (cancel ''t1'' False 12 st_completed)) ''t1'' = None
   \<and> Storage_deleteFile ''/docs/downloads/a.mp4'' \<in> set (trace (snd (cancel ''t1'' False 12 st_completed)))
   \<and> Emit_status_change ''t1'' COMPLETED CANCELLED
        \<in> set (trace (snd (cancel ''t1'' False 12 st_completed)))
   \<and> filter is_cancelled_event (trace (snd (cancel ''t1'' False 12 st_completed)))
        = [Emit_cancelled ''t1'']"
proof -
  have h: "getTask st_completed ''t1''
     = Some (task1\<lparr>status := COMPLETED, startedAt := Some 1, completedAt := Some 9,
               progress := Num 100\<rparr>)"
    by (simp add: st_completed_eq getTask_def)
  have d: "filter is_cancelled_event (trace st_completed) = []"
    by (simp add: st_completed_eq)
  from cancel_ignores_task_state [OF h, of False 12] h d
  show ?thesis by (simp add: task1_def)
qed

end
